theory Spec2Isabelle
  imports Complex_Main "HOL-Library.Log_Nat"
begin

section \<open>Planning poker bot: data model\<close>

text \<open>
  A shallow embedding of \<^verbatim>\<open>pokerplan.py\<close>. Python strings are lists of the bytes of
  their UTF-8 encoding, so every \<^verbatim>\<open>str\<close> has exactly one image and \<^verbatim>\<open>==\<close>,
  \<^verbatim>\<open>startswith\<close> and \<^verbatim>\<open>split("|", n)\<close> act on the bytes as they act on the code
  points. The card \<^verbatim>\<open>"\<onehalf>"\<close> (U+00BD) is the two bytes C2 BD.
\<close>

definition half_card :: string where
  "half_card = [CHR 0xC2, CHR 0xBD]"

definition VOTE_OPTIONS :: "string list" where
  "VOTE_OPTIONS = [''0'', half_card, ''1'', ''2'', ''3'', ''5'', ''8'', ''13'', ''20'', ''40'',
     ''100'', ''?'']"

text \<open>\<^verbatim>\<open>types.User\<close>: the fields the bot reads.\<close>

record user =
  uid :: int
  u_username :: "string option"
  full_name :: string

text \<open>The three tables of \<^verbatim>\<open>init_db\<close>, one record per row.\<close>

record session =
  s_id :: string
  creator_id :: int
  creator_name :: string
  title :: string
  description :: string
  created_at :: string
  status :: string

record member =
  m_session_id :: string
  m_user_id :: int
  username :: string
  first_name :: string
  joined_at :: string

record vote =
  v_session_id :: string
  v_user_id :: int
  v_value :: string
  voted_at :: string

text \<open>
  The lines of the results text. Each constructor is one f-string of
  \<^verbatim>\<open>compose_and_broadcast_results\<close> and carries the values it formats: \<open>MeanLine h\<close> is
  \<^verbatim>\<open>{mean:.2f}\<close> showing \<open>h\<close> hundredths, \<open>MedianLine x\<close> is \<^verbatim>\<open>{median}\<close>, and a
  display name is the stored text or \<^verbatim>\<open>str(user_id)\<close>.
\<close>

datatype display = Name string | UserId int

datatype line =
    ResultsHeader string string
  | CountLine string nat
  | TotalLine nat
  | MeanLine int
  | MedianLine rat
  | NotVotedHeader
  | NotVotedLine display

text \<open>
  The texts the bot sends, by what they say; the arguments are the values interpolated.
\<close>

datatype message =
    SessionNotFound
  | SessionIsClosed
  | Joined string string
  | KeyboardSent
  | CannotSendDM
  | VotingClosed
  | VotedAsFacilitator string
  | VoteSaved string
  | Results "line list"
  | AllVoted
  | OnlyCreatorReveals
  | NoVotesYet
  | ResultsSent
  | OnlyCreatorRevotes
  | RevotePrompt string string
  | VotesReset
  | SessionNotActive
  | OnlyCreatorSeesMembers
  | NobodyJoined
  | Roster string string "(string option \<times> string option \<times> int) list"
  | Info string
  | UsageNewSession
  | SessionCreated string string string
  | UsageCloseSession
  | OnlyCreatorCloses
  | SessionClosed string

datatype keyboard = VoteKeyboard string | SessionButtons string

datatype error = ValueError | IntegrityError | StatisticsError

text \<open>
  What a handler does to the outside, in order: \<^verbatim>\<open>callback.answer\<close>,
  \<^verbatim>\<open>callback.message.edit_text\<close>, \<^verbatim>\<open>bot.send_message\<close>, \<^verbatim>\<open>message.reply\<close>, a log
  entry of a caught delivery failure, and an exception that leaves the handler.
\<close>

datatype event =
    Answer "message option" bool
  | EditText message "keyboard option"
  | SendMessage int message "keyboard option"
  | Reply message "keyboard option"
  | LogWarning int
  | LogException
  | Uncaught error

record world =
  sessions :: "session list"
  session_members :: "member list"
  votes :: "vote list"
  events :: "event list"

text \<open>
  What the handlers take from outside the program: the builtin \<^verbatim>\<open>float\<close> on a string
  (\<open>None\<close> where it raises \<^verbatim>\<open>ValueError\<close>; the value is the exact value of the double),
  the clock of \<^verbatim>\<open>now_iso\<close>, the random token of \<^verbatim>\<open>make_session_id\<close>, and whether
  \<^verbatim>\<open>bot.send_message\<close> to a user goes through or raises.
\<close>

record env =
  pyfloat :: "string \<Rightarrow> rat option"
  now_iso :: string
  token_urlsafe :: string
  can_deliver :: "int \<Rightarrow> bool"

section \<open>Storage helpers\<close>

text \<open>
  A table is the list of its rows in insertion order. \<^verbatim>\<open>INSERT OR IGNORE\<close> leaves the
  table alone when the primary key is taken; \<^verbatim>\<open>INSERT OR REPLACE\<close> deletes the row
  holding the key and inserts the new one; a plain \<^verbatim>\<open>INSERT\<close> on a taken key raises.

  The two \<^verbatim>\<open>SELECT ... WHERE session_id = ?\<close> have no \<^verbatim>\<open>ORDER BY\<close>. SQLite answers
  them from the index of \<^verbatim>\<open>PRIMARY KEY(session_id, user_id)\<close>, so the rows of a session
  are read in ascending \<^verbatim>\<open>user_id\<close>, whatever the order they were inserted in.
\<close>

definition or_empty :: "string option \<Rightarrow> string" where
  "or_empty s = (case s of None \<Rightarrow> [] | Some t \<Rightarrow> t)"

definition create_session ::
  "env \<Rightarrow> user \<Rightarrow> string \<Rightarrow> string option \<Rightarrow> world \<Rightarrow> error + (string \<times> world)" where
  "create_session e creator ttl descr w =
     (let sid = token_urlsafe e in
      if list_ex (\<lambda>s. s_id s = sid) (sessions w) then Inl IntegrityError
      else Inr (sid, w\<lparr>sessions := sessions w @
        [\<lparr>s_id = sid, creator_id = uid creator, creator_name = full_name creator,
          title = ttl, description = or_empty descr, created_at = now_iso e,
          status = ''open''\<rparr>]\<rparr>))"

definition add_member :: "env \<Rightarrow> string \<Rightarrow> user \<Rightarrow> world \<Rightarrow> world" where
  "add_member e sid u w =
     (if list_ex (\<lambda>m. m_session_id m = sid \<and> m_user_id m = uid u) (session_members w) then w
      else w\<lparr>session_members := session_members w @
        [\<lparr>m_session_id = sid, m_user_id = uid u, username = or_empty (u_username u),
          first_name = full_name u, joined_at = now_iso e\<rparr>]\<rparr>)"

definition set_vote :: "env \<Rightarrow> string \<Rightarrow> user \<Rightarrow> string \<Rightarrow> world \<Rightarrow> world" where
  "set_vote e sid u val w =
     w\<lparr>votes := filter (\<lambda>v. \<not> (v_session_id v = sid \<and> v_user_id v = uid u)) (votes w) @
        [\<lparr>v_session_id = sid, v_user_id = uid u, v_value = val, voted_at = now_iso e\<rparr>]\<rparr>"

definition get_session :: "world \<Rightarrow> string \<Rightarrow> session option" where
  "get_session w sid = find (\<lambda>s. s_id s = sid) (sessions w)"

definition get_members :: "world \<Rightarrow> string \<Rightarrow> member list" where
  "get_members w sid =
     sort_key m_user_id (filter (\<lambda>m. m_session_id m = sid) (session_members w))"

definition get_votes :: "world \<Rightarrow> string \<Rightarrow> vote list" where
  "get_votes w sid = sort_key v_user_id (filter (\<lambda>v. v_session_id v = sid) (votes w))"

definition clear_votes :: "string \<Rightarrow> world \<Rightarrow> world" where
  "clear_votes sid w = w\<lparr>votes := filter (\<lambda>v. v_session_id v \<noteq> sid) (votes w)\<rparr>"

definition set_session_status :: "string \<Rightarrow> string \<Rightarrow> world \<Rightarrow> world" where
  "set_session_status sid st w =
     w\<lparr>sessions := map (\<lambda>s. if s_id s = sid then s\<lparr>status := st\<rparr> else s) (sessions w)\<rparr>"

section \<open>Transport\<close>

definition emit :: "event \<Rightarrow> world \<Rightarrow> world" where
  "emit ev w = w\<lparr>events := events w @ [ev]\<rparr>"

text \<open>\<^verbatim>\<open>bot.send_message\<close>: \<open>None\<close> when it raises.\<close>

definition bot_send_message ::
  "env \<Rightarrow> int \<Rightarrow> message \<Rightarrow> keyboard option \<Rightarrow> world \<Rightarrow> world option" where
  "bot_send_message e to msg kb w =
     (if can_deliver e to then Some (emit (SendMessage to msg kb) w) else None)"

section \<open>Floating point and statistics\<close>

text \<open>
  A double is the rational it denotes. \<open>to_double\<close> rounds a rational to the nearest
  number with a 53-bit significand, ties to even, as Python's float addition, float
  division and the conversion in \<^verbatim>\<open>statistics.mean\<close> do; the exponent range is
  not bounded (no overflow to infinity, no subnormals).
\<close>

definition pow2 :: "int \<Rightarrow> rat" where
  "pow2 k = (if 0 \<le> k then 2 ^ nat k else 1 / 2 ^ nat (- k))"

definition floor_log2 :: "rat \<Rightarrow> int" where
  "floor_log2 q =
     (let (a, b) = quotient_of q;
          k = int (floorlog 2 (nat a)) - int (floorlog 2 (nat b))
      in if pow2 k \<le> q then k else k - 1)"

definition round_half_even :: "rat \<Rightarrow> int" where
  "round_half_even x =
     (let f = \<lfloor>x\<rfloor>; d = x - of_int f
      in if d < 1 / 2 then f else if 1 / 2 < d then f + 1 else if even f then f else f + 1)"

definition to_double :: "rat \<Rightarrow> rat" where
  "to_double q =
     (if q = 0 then 0
      else let u = pow2 (floor_log2 \<bar>q\<bar> - 52) in of_int (round_half_even (q / u)) * u)"

text \<open>\<^verbatim>\<open>statistics.mean\<close>: the exact sum over the count, converted to a float.\<close>

definition statistics_mean :: "rat list \<Rightarrow> error + rat" where
  "statistics_mean xs =
     (if length xs < 1 then Inl StatisticsError
      else Inr (to_double (sum_list xs / of_nat (length xs))))"

text \<open>\<^verbatim>\<open>statistics.median\<close>: float addition, then float division by 2.\<close>

definition statistics_median :: "rat list \<Rightarrow> error + rat" where
  "statistics_median xs =
     (let data = sort xs; n = length data in
      if n = 0 then Inl StatisticsError
      else if n mod 2 = 1 then Inr (data ! (n div 2))
      else let i = n div 2 in
        Inr (to_double (to_double (data ! (i - 1) + data ! i) / 2)))"

text \<open>\<^verbatim>\<open>{x:.2f}\<close>: the number of hundredths shown, the nearest to \<open>x\<close>, ties to even.\<close>

definition format_2f :: "rat \<Rightarrow> int" where
  "format_2f x = round_half_even (x * 100)"

section \<open>Results\<close>

text \<open>The loop over the votes: \<open>counts\<close> and \<open>numeric_values\<close> together.\<close>

fun tally ::
  "env \<Rightarrow> vote list \<Rightarrow> (string \<rightharpoonup> nat) \<times> rat list \<Rightarrow> (string \<rightharpoonup> nat) \<times> rat list" where
  "tally e [] acc = acc"
| "tally e (v # vs) (counts, numeric_values) =
     (let val = v_value v;
          counts' = counts(val \<mapsto> (case counts val of None \<Rightarrow> 0 | Some n \<Rightarrow> n) + 1)
      in tally e vs
        (counts',
         if val = ''?'' then numeric_values
         else if val = half_card then numeric_values @ [1 / 2]
         else (case pyfloat e val of
                 None \<Rightarrow> numeric_values
               | Some x \<Rightarrow> numeric_values @ [x])))"

definition display_of :: "member \<Rightarrow> display" where
  "display_of m =
     (if username m \<noteq> [] then Name (username m)
      else if first_name m \<noteq> [] then Name (first_name m)
      else UserId (m_user_id m))"

text \<open>The send loop: a failed delivery is logged and the loop goes on.\<close>

fun broadcast :: "env \<Rightarrow> member list \<Rightarrow> message \<Rightarrow> world \<Rightarrow> world" where
  "broadcast e [] msg w = w"
| "broadcast e (m # ms) msg w =
     broadcast e ms msg
       (case bot_send_message e (m_user_id m) msg None w of
          Some w' \<Rightarrow> w'
        | None \<Rightarrow> emit (LogWarning (m_user_id m)) w)"

text \<open>
  The text of the results (its lines, before \<^verbatim>\<open>"\n".join\<close>) from the rows read:
  the body of \<^verbatim>\<open>compose_and_broadcast_results\<close> between the reads and the send loop.
  \<^verbatim>\<open>statistics.mean\<close> and \<^verbatim>\<open>statistics.median\<close> sit in a \<^verbatim>\<open>try\<close> that drops both
  lines when one of them raises.
\<close>

definition results_text :: "env \<Rightarrow> session \<Rightarrow> string \<Rightarrow> vote list \<Rightarrow> member list \<Rightarrow> line list" where
  "results_text e session sid vs members =
     (let (counts, numeric_values) = tally e vs (Map.empty, []);
          lines = [ResultsHeader (title session) sid];
          total = length vs;
          lines = lines @ concat (map (\<lambda>opt.
                    case counts opt of None \<Rightarrow> [] | Some n \<Rightarrow> [CountLine opt n])
                    VOTE_OPTIONS);
          stats_lines =
            (if numeric_values \<noteq> [] then
               (case (statistics_mean numeric_values, statistics_median numeric_values) of
                  (Inr mean, Inr median) \<Rightarrow> [MeanLine (format_2f mean), MedianLine median]
                | _ \<Rightarrow> [])
             else []);
          lines = lines @ [TotalLine total];
          lines = (if stats_lines \<noteq> [] then lines @ stats_lines else lines);
          voted_ids = set (map v_user_id vs);
          not_voted = filter (\<lambda>m. m_user_id m \<notin> voted_ids) members
      in if not_voted \<noteq> []
         then lines @ NotVotedHeader # map (\<lambda>m. NotVotedLine (display_of m)) not_voted
         else lines)"

definition compose_and_broadcast_results ::
  "env \<Rightarrow> string \<Rightarrow> world \<Rightarrow> line list option \<times> world" where
  "compose_and_broadcast_results e sid w =
     (case get_session w sid of
        None \<Rightarrow> (None, w)
      | Some session \<Rightarrow>
          let vs = get_votes w sid; members = get_members w sid in
          if vs = [] then (None, w)
          else
            let result_text = results_text e session sid vs members
            in (Some result_text, broadcast e members (Results result_text) w))"

section \<open>Parsing\<close>

text \<open>
  \<^verbatim>\<open>s.split(sep, maxsplit)\<close> for a separator of one character, and
  \<^verbatim>\<open>s.startswith(p)\<close>.
\<close>

fun py_split :: "char \<Rightarrow> nat \<Rightarrow> string \<Rightarrow> string list" where
  "py_split c 0 s = [s]"
| "py_split c (Suc n) s =
     (if c \<in> set s
      then takeWhile (\<lambda>x. x \<noteq> c) s # py_split c n (tl (dropWhile (\<lambda>x. x \<noteq> c) s))
      else [s])"

definition startswith :: "string \<Rightarrow> string \<Rightarrow> bool" where
  "startswith s p = (take (length p) s = p)"

text \<open>
  \<^verbatim>\<open>s.strip()\<close>: the whitespace of \<^verbatim>\<open>str.isspace\<close>, each as its UTF-8 bytes
  (U+0009 to U+000D, U+001C to U+0020, U+0085, U+00A0, U+1680, U+2000 to U+200A, U+2028,
  U+2029, U+202F, U+205F, U+3000).
\<close>

definition whitespace :: "string list" where
  "whitespace =
     map (\<lambda>c. [c]) [CHR 0x09, CHR 0x0A, CHR 0x0B, CHR 0x0C, CHR 0x0D,
                    CHR 0x1C, CHR 0x1D, CHR 0x1E, CHR 0x1F, CHR 0x20] @
     [[CHR 0xC2, CHR 0x85], [CHR 0xC2, CHR 0xA0], [CHR 0xE1, CHR 0x9A, CHR 0x80]] @
     map (\<lambda>c. [CHR 0xE2, CHR 0x80, c])
       [CHR 0x80, CHR 0x81, CHR 0x82, CHR 0x83, CHR 0x84, CHR 0x85, CHR 0x86, CHR 0x87,
        CHR 0x88, CHR 0x89, CHR 0x8A, CHR 0xA8, CHR 0xA9, CHR 0xAF] @
     [[CHR 0xE2, CHR 0x81, CHR 0x9F], [CHR 0xE3, CHR 0x80, CHR 0x80]]"

fun strip_prefixes :: "string list \<Rightarrow> nat \<Rightarrow> string \<Rightarrow> string" where
  "strip_prefixes wss 0 s = s"
| "strip_prefixes wss (Suc n) s =
     (case find (\<lambda>ws. startswith s ws) wss of
        None \<Rightarrow> s
      | Some ws \<Rightarrow> strip_prefixes wss n (drop (length ws) s))"

text \<open>
  Each round removes at least one byte, so \<open>length s\<close> rounds remove every leading
  whitespace; the trailing ones are the leading ones of the reversed string.
\<close>

definition py_strip :: "string \<Rightarrow> string" where
  "py_strip s =
     (let l = strip_prefixes whitespace (length s) s
      in rev (strip_prefixes (map rev whitespace) (length l) (rev l)))"

section \<open>Handlers\<close>

text \<open>
  A handler maps the world before the update to the world after it. An exception that no
  \<^verbatim>\<open>except\<close> of the source catches ends the handler and is recorded as \<open>Uncaught\<close>.
  Calls of the transport other than \<^verbatim>\<open>bot.send_message\<close> and the storage calls are
  taken not to raise.
\<close>

definition cmd_new_session :: "env \<Rightarrow> user \<Rightarrow> string option \<Rightarrow> world \<Rightarrow> world" where
  "cmd_new_session e u args w =
     (if or_empty args = [] then emit (Reply UsageNewSession None) w
      else
        let ttl = or_empty args; descr = [] in
        case create_session e u ttl (Some descr) w of
          Inl err \<Rightarrow> emit (Uncaught err) w
        | Inr (sid, w1) \<Rightarrow>
            let w2 = add_member e sid u w1 in
            emit (Reply (SessionCreated ttl sid (full_name u)) (Some (SessionButtons sid))) w2)"

definition cb_join :: "env \<Rightarrow> user \<Rightarrow> string \<Rightarrow> world \<Rightarrow> world" where
  "cb_join e u data w0 =
     (let w1 = emit (Answer None False) w0 in
      case py_split CHR ''|'' 1 data of
        [_, sid] \<Rightarrow>
          (case get_session w1 sid of
             None \<Rightarrow> emit (EditText SessionNotFound None) w1
           | Some session \<Rightarrow>
               if status session \<noteq> ''open'' then emit (EditText SessionIsClosed None) w1
               else
                 let w2 = add_member e sid u w1 in
                 (case bot_send_message e (uid u) (Joined (title session) sid)
                         (Some (VoteKeyboard sid)) w2 of
                    Some w3 \<Rightarrow> emit (Answer (Some KeyboardSent) False) w3
                  | None \<Rightarrow> emit (Answer (Some CannotSendDM) True) (emit LogException w2)))
      | _ \<Rightarrow> emit (Uncaught ValueError) w1)"

text \<open>
  \<open>length (remdups ...)\<close> is \<^verbatim>\<open>len(unique_voters)\<close>, the size of the set of voter ids.
  The results text is never empty, so \<^verbatim>\<open>if result_text\<close> is \<open>Some\<close>.
\<close>

definition cb_vote :: "env \<Rightarrow> user \<Rightarrow> string \<Rightarrow> world \<Rightarrow> world" where
  "cb_vote e u data w0 =
     (let w1 = emit (Answer None False) w0 in
      case py_split CHR ''|'' 2 data of
        [_, sid, val] \<Rightarrow>
          (case get_session w1 sid of
             None \<Rightarrow> emit (EditText SessionNotFound None) w1
           | Some session \<Rightarrow>
               if status session \<noteq> ''open'' then emit (EditText VotingClosed None) w1
               else
                 let w2 = set_vote e sid u val w1;
                     w3 = (if uid u = creator_id session
                           then emit (EditText (VotedAsFacilitator val) (Some (VoteKeyboard sid))) w2
                           else emit (EditText (VoteSaved val) None) w2)
                 in
                 if status session = ''open'' then
                   let members = get_members w3 sid;
                       vs = get_votes w3 sid;
                       unique_voters = remdups (map v_user_id vs)
                   in
                   if members \<noteq> [] \<and> length unique_voters = length members then
                     (case compose_and_broadcast_results e sid w3 of
                        (None, w4) \<Rightarrow> w4
                      | (Some result_text, w4) \<Rightarrow>
                          (case bot_send_message e (creator_id session) AllVoted None w4 of
                             Some w5 \<Rightarrow> w5
                           | None \<Rightarrow> w4))
                   else w3
                 else w3)
      | _ \<Rightarrow> emit (Uncaught ValueError) w1)"

definition cb_reveal :: "env \<Rightarrow> user \<Rightarrow> string \<Rightarrow> world \<Rightarrow> world" where
  "cb_reveal e u data w0 =
     (let w1 = emit (Answer None False) w0 in
      case py_split CHR ''|'' 1 data of
        [_, sid] \<Rightarrow>
          (case get_session w1 sid of
             None \<Rightarrow> emit (Answer (Some SessionNotFound) True) w1
           | Some session \<Rightarrow>
               if uid u \<noteq> creator_id session
               then emit (Answer (Some OnlyCreatorReveals) True) w1
               else
                 (case compose_and_broadcast_results e sid w1 of
                    (None, w2) \<Rightarrow> emit (Reply NoVotesYet None) w2
                  | (Some result_text, w2) \<Rightarrow> emit (Reply ResultsSent None) w2))
      | _ \<Rightarrow> emit (Uncaught ValueError) w1)"

text \<open>The prompts of a revote: a failed delivery is passed over silently.\<close>

fun prompt_members :: "env \<Rightarrow> member list \<Rightarrow> message \<Rightarrow> keyboard \<Rightarrow> world \<Rightarrow> world" where
  "prompt_members e [] msg kb w = w"
| "prompt_members e (m # ms) msg kb w =
     prompt_members e ms msg kb
       (case bot_send_message e (m_user_id m) msg (Some kb) w of
          Some w' \<Rightarrow> w'
        | None \<Rightarrow> w)"

definition cb_revote :: "env \<Rightarrow> user \<Rightarrow> string \<Rightarrow> world \<Rightarrow> world" where
  "cb_revote e u data w0 =
     (let w1 = emit (Answer None False) w0 in
      case py_split CHR ''|'' 1 data of
        [_, sid] \<Rightarrow>
          (case get_session w1 sid of
             None \<Rightarrow> emit (Answer (Some SessionNotFound) True) w1
           | Some session \<Rightarrow>
               if uid u \<noteq> creator_id session
               then emit (Answer (Some OnlyCreatorRevotes) True) w1
               else
                 let w2 = clear_votes sid w1;
                     members = get_members w2 sid;
                     w3 = prompt_members e members (RevotePrompt (title session) sid)
                            (VoteKeyboard sid) w2
                 in emit (Reply VotesReset None) w3)
      | _ \<Rightarrow> emit (Uncaught ValueError) w1)"

definition roster_entry :: "member \<Rightarrow> string option \<times> string option \<times> int" where
  "roster_entry m =
     (if username m \<noteq> [] then Some (username m) else None,
      if first_name m \<noteq> [] then Some (first_name m) else None,
      m_user_id m)"

definition cb_members :: "env \<Rightarrow> user \<Rightarrow> string \<Rightarrow> world \<Rightarrow> world" where
  "cb_members e u data w0 =
     (let w1 = emit (Answer None False) w0 in
      case py_split CHR ''|'' 1 data of
        [_, sid] \<Rightarrow>
          (case get_session w1 sid of
             None \<Rightarrow> emit (Answer (Some SessionNotFound) True) w1
           | Some session \<Rightarrow>
               if status session \<noteq> ''open''
               then emit (Answer (Some SessionNotActive) True) w1
               else if uid u \<noteq> creator_id session
               then emit (Answer (Some OnlyCreatorSeesMembers) True) w1
               else
                 let members = get_members w1 sid in
                 if members = [] then emit (Reply NobodyJoined None) w1
                 else emit (Reply (Roster (title session) sid (map roster_entry members)) None) w1)
      | _ \<Rightarrow> emit (Uncaught ValueError) w1)"

definition cb_info :: "env \<Rightarrow> user \<Rightarrow> string \<Rightarrow> world \<Rightarrow> world" where
  "cb_info e u data w0 =
     (let w1 = emit (Answer None False) w0 in
      case py_split CHR ''|'' 1 data of
        [_, sid] \<Rightarrow>
          (case get_session w1 sid of
             None \<Rightarrow> emit (Answer (Some SessionNotFound) True) w1
           | Some session \<Rightarrow> emit (Reply (Info (title session)) None) w1)
      | _ \<Rightarrow> emit (Uncaught ValueError) w1)"

definition cmd_close_session :: "env \<Rightarrow> user \<Rightarrow> string option \<Rightarrow> world \<Rightarrow> world" where
  "cmd_close_session e u args w =
     (if or_empty args = [] then emit (Reply UsageCloseSession None) w
      else
        let sid = py_strip (or_empty args) in
        case get_session w sid of
          None \<Rightarrow> emit (Reply SessionNotFound None) w
        | Some session \<Rightarrow>
            if uid u \<noteq> creator_id session then emit (Reply OnlyCreatorCloses None) w
            else emit (Reply (SessionClosed sid) None) (set_session_status sid ''closed'' w))"

text \<open>
  The dispatcher: a callback goes to the first handler whose filter on the prefix of its
  data holds, a command to the handler registered for it. The handlers left out
  (\<^verbatim>\<open>/start\<close>, \<^verbatim>\<open>/help\<close>, \<^verbatim>\<open>/my_sessions\<close>, \<^verbatim>\<open>/export_csv\<close>, \<^verbatim>\<open>/session\<close>) write to no
  table.
\<close>

datatype update =
    CallbackQuery user string
  | NewSession user "string option"
  | CloseSession user "string option"

definition dispatch :: "env \<Rightarrow> update \<Rightarrow> world \<Rightarrow> world" where
  "dispatch e upd w =
     (case upd of
        CallbackQuery u data \<Rightarrow>
          if startswith data ''join|'' then cb_join e u data w
          else if startswith data ''vote|'' then cb_vote e u data w
          else if startswith data ''reveal|'' then cb_reveal e u data w
          else if startswith data ''revote|'' then cb_revote e u data w
          else if startswith data ''members|'' then cb_members e u data w
          else if startswith data ''info|'' then cb_info e u data w
          else w
      | NewSession u args \<Rightarrow> cmd_new_session e u args w
      | CloseSession u args \<Rightarrow> cmd_close_session e u args w)"

text \<open>\<^verbatim>\<open>init_db\<close> on a fresh database file: three empty tables.\<close>

definition init_db :: world where
  "init_db = \<lparr>sessions = [], session_members = [], votes = [], events = []\<rparr>"

section \<open>Notions the properties are stated with\<close>

text \<open>
  The primary keys: no two vote rows and no two membership rows of one session and user.
\<close>

definition keys_unique :: "world \<Rightarrow> bool" where
  "keys_unique w =
     (distinct (map (\<lambda>v. (v_session_id v, v_user_id v)) (votes w)) \<and>
      distinct (map (\<lambda>m. (m_session_id m, m_user_id m)) (session_members w)))"

text \<open>What the send loop of the results leaves in the event log, member by member.\<close>

definition deliveries :: "env \<Rightarrow> member list \<Rightarrow> message \<Rightarrow> event list" where
  "deliveries e members msg =
     map (\<lambda>m. if can_deliver e (m_user_id m) then SendMessage (m_user_id m) msg None
              else LogWarning (m_user_id m)) members"

text \<open>
  The number a numeric card stands for: the half card is 1/2, the others their literal
  value. It is applied to the cards other than \<^verbatim>\<open>?\<close> only; the last case is the
  card \<^verbatim>\<open>100\<close>.
\<close>

definition card_value :: "string \<Rightarrow> rat" where
  "card_value c =
     (if c = half_card then 1 / 2 else if c = ''0'' then 0 else if c = ''1'' then 1
      else if c = ''2'' then 2 else if c = ''3'' then 3 else if c = ''5'' then 5
      else if c = ''8'' then 8 else if c = ''13'' then 13 else if c = ''20'' then 20
      else if c = ''40'' then 40 else 100)"

text \<open>The builtin \<^verbatim>\<open>float\<close> on the ten cards it is called on.\<close>

definition float_on_cards :: "env \<Rightarrow> bool" where
  "float_on_cards e =
     (pyfloat e ''0'' = Some 0 \<and> pyfloat e ''1'' = Some 1 \<and> pyfloat e ''2'' = Some 2 \<and>
      pyfloat e ''3'' = Some 3 \<and> pyfloat e ''5'' = Some 5 \<and> pyfloat e ''8'' = Some 8 \<and>
      pyfloat e ''13'' = Some 13 \<and> pyfloat e ''20'' = Some 20 \<and> pyfloat e ''40'' = Some 40 \<and>
      pyfloat e ''100'' = Some 100)"

text \<open>
  The median as the textbook has it, in exact arithmetic: the middle element of the
  sorted sequence, or the average of the two middle ones.
\<close>

definition median_spec :: "rat list \<Rightarrow> rat" where
  "median_spec xs =
     (let s = sort xs; n = length s in
      if odd n then s ! (n div 2) else (s ! (n div 2 - 1) + s ! (n div 2)) / 2)"

text \<open>The numbers the cards stand for are among the halves from 0 to 100.\<close>

definition card_numbers :: "rat set" where
  "card_numbers = (\<lambda>n. of_nat n / 2) ` {..200::nat}"

text \<open>The parts of a results text.\<close>

fun histogram_of :: "line list \<Rightarrow> (string \<times> nat) list" where
  "histogram_of [] = []"
| "histogram_of (CountLine opt n # ls) = (opt, n) # histogram_of ls"
| "histogram_of (_ # ls) = histogram_of ls"

fun totals_of :: "line list \<Rightarrow> nat list" where
  "totals_of [] = []"
| "totals_of (TotalLine n # ls) = n # totals_of ls"
| "totals_of (_ # ls) = totals_of ls"

fun roster_of :: "line list \<Rightarrow> display list" where
  "roster_of [] = []"
| "roster_of (NotVotedLine d # ls) = d # roster_of ls"
| "roster_of (_ # ls) = roster_of ls"

fun stats_of :: "line list \<Rightarrow> line list" where
  "stats_of [] = []"
| "stats_of (MeanLine h # ls) = MeanLine h # stats_of ls"
| "stats_of (MedianLine x # ls) = MedianLine x # stats_of ls"
| "stats_of (_ # ls) = stats_of ls"

text \<open>The count lines drawn from a dictionary of counts, and the lines of the statistics.\<close>

definition count_lines :: "(string \<rightharpoonup> nat) \<Rightarrow> string list \<Rightarrow> line list" where
  "count_lines counts opts =
     concat (map (\<lambda>opt. case counts opt of None \<Rightarrow> [] | Some n \<Rightarrow> [CountLine opt n]) opts)"

definition stats_lines :: "rat list \<Rightarrow> line list" where
  "stats_lines numeric_values =
     (if numeric_values \<noteq> [] then
        (case (statistics_mean numeric_values, statistics_median numeric_values) of
           (Inr mean, Inr median) \<Rightarrow> [MeanLine (format_2f mean), MedianLine median]
         | _ \<Rightarrow> [])
      else [])"

section \<open>Sample worlds\<close>

text \<open>
  An environment where every delivery goes through and \<^verbatim>\<open>float\<close> knows the ten numeric
  cards; two users; the world after Alice opened a session, after she closed it, and
  after she voted in the open one.
\<close>

definition env0 :: env where
  "env0 = \<lparr>pyfloat = map_of [(''0'', 0), (''1'', 1), (''2'', 2), (''3'', 3), (''5'', 5),
              (''8'', 8), (''13'', 13), (''20'', 20), (''40'', 40), (''100'', 100)],
            now_iso = ''t'', token_urlsafe = ''s1'', can_deliver = (\<lambda>_. True)\<rparr>"

definition alice :: user where
  "alice = \<lparr>uid = 1, u_username = Some ''alice'', full_name = ''Alice''\<rparr>"

definition bob :: user where
  "bob = \<lparr>uid = 2, u_username = None, full_name = ''Bob''\<rparr>"

definition s_open :: session where
  "s_open = \<lparr>s_id = ''s1'', creator_id = 1, creator_name = ''Alice'', title = ''Task'',
             description = [], created_at = ''t'', status = ''open''\<rparr>"

definition alice_row :: member where
  "alice_row = \<lparr>m_session_id = ''s1'', m_user_id = 1, username = ''alice'',
                first_name = ''Alice'', joined_at = ''t''\<rparr>"

definition w_open :: world where
  "w_open = cmd_new_session env0 alice (Some ''Task'') init_db"

definition w_closed :: world where
  "w_closed = cmd_close_session env0 alice (Some ''s1'') w_open"

definition w_voted :: world where
  "w_voted = cb_vote env0 alice ''vote|s1|5'' w_open"

definition bob_row :: member where
  "bob_row = \<lparr>m_session_id = ''s1'', m_user_id = 2, username = [], first_name = ''Bob'',
              joined_at = ''t''\<rparr>"

definition carol_row :: member where
  "carol_row = \<lparr>m_session_id = ''s1'', m_user_id = 3, username = ''carol'',
                first_name = ''Carol'', joined_at = ''t''\<rparr>"

text \<open>
  Carol joins Alice's session at \<^verbatim>\<open>t1\<close>, Bob at \<^verbatim>\<open>t2\<close>, and then Alice votes.
\<close>

definition carol :: user where
  "carol = \<lparr>uid = 3, u_username = Some ''carol'', full_name = ''Carol''\<rparr>"

definition carol_joined :: member where
  "carol_joined = \<lparr>m_session_id = ''s1'', m_user_id = 3, username = ''carol'',
                   first_name = ''Carol'', joined_at = ''t1''\<rparr>"

definition bob_joined :: member where
  "bob_joined = \<lparr>m_session_id = ''s1'', m_user_id = 2, username = [], first_name = ''Bob'',
                 joined_at = ''t2''\<rparr>"

definition w_joined :: world where
  "w_joined =
     cb_join (env0\<lparr>now_iso := ''t2''\<rparr>) bob ''join|s1''
       (cb_join (env0\<lparr>now_iso := ''t1''\<rparr>) carol ''join|s1'' w_open)"

definition w_roster :: world where
  "w_roster = cb_vote env0 alice ''vote|s1|5'' w_joined"

text \<open>Three members, two of whom have voted.\<close>

definition w_poll :: world where
  "w_poll = \<lparr>sessions = [s_open], session_members = [alice_row, bob_row, carol_row],
     votes = [\<lparr>v_session_id = ''s1'', v_user_id = 1, v_value = ''?'', voted_at = ''t''\<rparr>,
              \<lparr>v_session_id = ''s1'', v_user_id = 3, v_value = ''8'', voted_at = ''t''\<rparr>],
     events = []\<rparr>"

definition bob_vote_7 :: vote where
  "bob_vote_7 = \<lparr>v_session_id = ''s1'', v_user_id = 2, v_value = ''7'', voted_at = ''t''\<rparr>"

definition bob_vote_5 :: vote where
  "bob_vote_5 = \<lparr>v_session_id = ''s1'', v_user_id = 2, v_value = ''5'', voted_at = ''t''\<rparr>"

definition alice_vote_5 :: vote where
  "alice_vote_5 = \<lparr>v_session_id = ''s1'', v_user_id = 1, v_value = ''5'', voted_at = ''t''\<rparr>"

definition alice_vote_8 :: vote where
  "alice_vote_8 = \<lparr>v_session_id = ''s1'', v_user_id = 1, v_value = ''8'', voted_at = ''t''\<rparr>"

text \<open>Votes holding the half card, some numeric cards and the abstention.\<close>

definition half_vote :: vote where
  "half_vote = \<lparr>v_session_id = ''s1'', v_user_id = 1, v_value = half_card, voted_at = ''t''\<rparr>"

definition one_vote :: vote where
  "one_vote = \<lparr>v_session_id = ''s1'', v_user_id = 2, v_value = ''1'', voted_at = ''t''\<rparr>"

definition two_vote :: vote where
  "two_vote = \<lparr>v_session_id = ''s1'', v_user_id = 3, v_value = ''2'', voted_at = ''t''\<rparr>"

definition three_vote :: vote where
  "three_vote = \<lparr>v_session_id = ''s1'', v_user_id = 3, v_value = ''3'', voted_at = ''t''\<rparr>"

definition five_vote :: vote where
  "five_vote = \<lparr>v_session_id = ''s1'', v_user_id = 5, v_value = ''5'', voted_at = ''t''\<rparr>"

definition abstain_vote :: vote where
  "abstain_vote = \<lparr>v_session_id = ''s1'', v_user_id = 4, v_value = ''?'', voted_at = ''t''\<rparr>"

section \<open>Basic facts\<close>

lemma emit_simps [simp]:
  "sessions (emit ev w) = sessions w"
  "session_members (emit ev w) = session_members w"
  "votes (emit ev w) = votes w"
  "events (emit ev w) = events w @ [ev]"
  by (simp_all add: emit_def)

lemma get_emit [simp]:
  "get_session (emit ev w) sid = get_session w sid"
  "get_members (emit ev w) sid = get_members w sid"
  "get_votes (emit ev w) sid = get_votes w sid"
  by (simp_all add: get_session_def get_members_def get_votes_def)

lemma get_events_update [simp]:
  "get_session (w\<lparr>events := evs\<rparr>) sid = get_session w sid"
  "get_members (w\<lparr>events := evs\<rparr>) sid = get_members w sid"
  "get_votes (w\<lparr>events := evs\<rparr>) sid = get_votes w sid"
  by (simp_all add: get_session_def get_members_def get_votes_def)

lemma broadcast_eq: "broadcast e ms msg w = w\<lparr>events := events w @ deliveries e ms msg\<rparr>"
  by (induction ms arbitrary: w) (simp_all add: deliveries_def bot_send_message_def emit_def)

lemma prompt_members_store:
  "sessions (prompt_members e ms msg kb w) = sessions w \<and>
   session_members (prompt_members e ms msg kb w) = session_members w \<and>
   votes (prompt_members e ms msg kb w) = votes w"
  by (induction ms arbitrary: w) (simp_all add: bot_send_message_def)

lemma compose_eq:
  "compose_and_broadcast_results e sid w =
     (case get_session w sid of
        None \<Rightarrow> (None, w)
      | Some s \<Rightarrow>
          if get_votes w sid = [] then (None, w)
          else (Some (results_text e s sid (get_votes w sid) (get_members w sid)),
                w\<lparr>events := events w @ deliveries e (get_members w sid)
                  (Results (results_text e s sid (get_votes w sid) (get_members w sid)))\<rparr>))"
  by (simp add: compose_and_broadcast_results_def broadcast_eq Let_def split: option.splits)

lemma py_split_step:
  "c \<notin> set p \<Longrightarrow> py_split c (Suc n) (p @ c # rest) = p # py_split c n rest"
proof -
  assume a: "c \<notin> set p"
  then have t: "takeWhile (\<lambda>x. x \<noteq> c) (p @ c # rest) = p"
    by (induction p) auto
  from a have d: "dropWhile (\<lambda>x. x \<noteq> c) (p @ c # rest) = c # rest"
    by (induction p) auto
  show ?thesis by (simp add: t d)
qed

lemma split_vote:
  assumes "CHR ''|'' \<notin> set sid"
  shows "py_split CHR ''|'' 2 (''vote|'' @ sid @ ''|'' @ val) = [''vote'', sid, val]"
proof -
  have "py_split CHR ''|'' (Suc (Suc 0)) (''vote'' @ CHR ''|'' # (sid @ CHR ''|'' # val))
        = ''vote'' # py_split CHR ''|'' (Suc 0) (sid @ CHR ''|'' # val)"
    by (rule py_split_step) simp
  also have "py_split CHR ''|'' (Suc 0) (sid @ CHR ''|'' # val) = sid # py_split CHR ''|'' 0 val"
    using assms by (rule py_split_step)
  finally show ?thesis by (simp add: numeral_2_eq_2)
qed

lemma split_one:
  assumes "CHR ''|'' \<notin> set p"
  shows "py_split CHR ''|'' 1 (p @ ''|'' @ rest) = [p, rest]"
  using py_split_step [OF assms, of 0 rest] by simp

lemma split_reveal: "py_split CHR ''|'' 1 (''reveal|'' @ sid) = [''reveal'', sid]"
  using split_one [of "''reveal''" sid] by simp

lemma split_members: "py_split CHR ''|'' 1 (''members|'' @ sid) = [''members'', sid]"
  using split_one [of "''members''" sid] by simp

lemma split_join: "py_split CHR ''|'' 1 (''join|'' @ sid) = [''join'', sid]"
  using split_one [of "''join''" sid] by simp

section \<open>The sample worlds, evaluated\<close>

lemma w_open_eq:
  "w_open = \<lparr>sessions = [s_open], session_members = [alice_row], votes = [],
     events = [Reply (SessionCreated ''Task'' ''s1'' ''Alice'') (Some (SessionButtons ''s1''))]\<rparr>"
  by (simp add: w_open_def cmd_new_session_def create_session_def add_member_def init_db_def
      env0_def alice_def or_empty_def emit_def Let_def s_open_def alice_row_def)

lemma strip_s1: "py_strip ''s1'' = ''s1''"
  by (simp add: py_strip_def whitespace_def startswith_def numeral_2_eq_2)

lemma w_closed_eq:
  "w_closed = \<lparr>sessions = [s_open\<lparr>status := ''closed''\<rparr>], session_members = [alice_row],
     votes = [],
     events = [Reply (SessionCreated ''Task'' ''s1'' ''Alice'') (Some (SessionButtons ''s1'')),
               Reply (SessionClosed ''s1'') None]\<rparr>"
  by (simp add: w_closed_def w_open_eq cmd_close_session_def strip_s1 get_session_def
      set_session_status_def alice_def or_empty_def emit_def Let_def s_open_def)

lemma get_session_w_open: "get_session w_open ''s1'' = Some s_open"
  by (simp add: w_open_eq get_session_def s_open_def)

lemma get_session_w_closed: "get_session w_closed ''s1'' = Some (s_open\<lparr>status := ''closed''\<rparr>)"
  by (simp add: w_closed_eq get_session_def s_open_def)

section \<open>Votes on a closed session\<close>

text \<open>
  Claim C8. A vote on an existing session whose status is \<^verbatim>\<open>closed\<close> is answered with
  the "voting is closed" text and nothing else happens: the world after the handler is the
  world before it with the two transport events added, so no vote row is created,
  overwritten or deleted.
\<close>

theorem vote_on_closed_session:
  assumes "get_session w sid = Some s" and "status s = ''closed''" and "CHR ''|'' \<notin> set sid"
  shows "cb_vote e u (''vote|'' @ sid @ ''|'' @ val) w =
           w\<lparr>events := events w @ [Answer None False, EditText VotingClosed None]\<rparr>
         \<and> votes (cb_vote e u (''vote|'' @ sid @ ''|'' @ val) w) = votes w"
proof -
  have "cb_vote e u (''vote|'' @ sid @ ''|'' @ val) w =
          emit (EditText VotingClosed None) (emit (Answer None False) w)"
    unfolding cb_vote_def split_vote [OF assms(3)] using assms(1,2) by (simp add: Let_def)
  then show ?thesis by (simp add: emit_def)
qed

theorem vote_on_closed_session_witness:
  "get_session w_closed ''s1'' = Some (s_open\<lparr>status := ''closed''\<rparr>) \<and>
   status (s_open\<lparr>status := ''closed''\<rparr>) = ''closed'' \<and> CHR ''|'' \<notin> set ''s1'' \<and>
   cb_vote env0 bob ''vote|s1|5'' w_closed =
     w_closed\<lparr>events := events w_closed @ [Answer None False, EditText VotingClosed None]\<rparr> \<and>
   votes (cb_vote env0 bob ''vote|s1|5'' w_closed) = []"
  using vote_on_closed_session [where w = w_closed and sid = "''s1''" and val = "''5''" and e = env0
      and u = bob and s = "s_open\<lparr>status := ''closed''\<rparr>"]
    get_session_w_closed
  by (simp add: w_closed_eq)

section \<open>The roster of a closed session\<close>

text \<open>
  Claim C10. On a session whose status is \<^verbatim>\<open>closed\<close> the members callback answers
  "session not active" to every requester, the creator included, and sends no roster: the
  status is tested before the creator is.
\<close>

theorem members_of_closed_session:
  assumes "get_session w sid = Some s" and "status s = ''closed''"
  shows "cb_members e u (''members|'' @ sid) w =
           w\<lparr>events := events w @ [Answer None False, Answer (Some SessionNotActive) True]\<rparr>"
proof -
  have "cb_members e u (''members|'' @ sid) w =
          emit (Answer (Some SessionNotActive) True) (emit (Answer None False) w)"
    unfolding cb_members_def split_members using assms by (simp add: Let_def)
  then show ?thesis by (simp add: emit_def)
qed

theorem members_of_closed_session_witness:
  "get_session w_closed ''s1'' = Some (s_open\<lparr>status := ''closed''\<rparr>) \<and>
   status (s_open\<lparr>status := ''closed''\<rparr>) = ''closed'' \<and>
   uid alice = creator_id (s_open\<lparr>status := ''closed''\<rparr>) \<and>
   cb_members env0 alice ''members|s1'' w_closed =
     w_closed\<lparr>events := events w_closed @
       [Answer None False, Answer (Some SessionNotActive) True]\<rparr>"
  using members_of_closed_session [where w = w_closed and sid = "''s1''" and e = env0 and u = alice
      and s = "s_open\<lparr>status := ''closed''\<rparr>"]
    get_session_w_closed
  by (simp add: alice_def s_open_def)

section \<open>Reveal\<close>

lemma cb_reveal_sessions: "sessions (cb_reveal e u data w) = sessions w"
  by (simp add: cb_reveal_def compose_eq Let_def split: list.splits option.splits)

text \<open>
  Claim C9. On an existing session, a reveal asked by anyone but the creator is answered
  with the "only the facilitator" alert; asked by the creator when the session has no vote
  it is answered with "no votes yet"; and whatever the outcome, success included, the
  sessions table (so every status) is as before.
\<close>

theorem reveal_errors:
  assumes "get_session w sid = Some s"
  shows "(uid u \<noteq> creator_id s \<longrightarrow>
            cb_reveal e u (''reveal|'' @ sid) w =
              w\<lparr>events := events w @ [Answer None False, Answer (Some OnlyCreatorReveals) True]\<rparr>)
       \<and> (uid u = creator_id s \<and> get_votes w sid = [] \<longrightarrow>
            cb_reveal e u (''reveal|'' @ sid) w =
              w\<lparr>events := events w @ [Answer None False, Reply NoVotesYet None]\<rparr>)
       \<and> sessions (cb_reveal e u (''reveal|'' @ sid) w) = sessions w"
  unfolding cb_reveal_sessions
  unfolding cb_reveal_def split_reveal using assms
  by (simp add: Let_def compose_eq emit_def)


theorem reveal_errors_witness:
  "get_session w_open ''s1'' = Some s_open \<and>
   uid bob \<noteq> creator_id s_open \<and>
   cb_reveal env0 bob ''reveal|s1'' w_open =
     w_open\<lparr>events := events w_open @
       [Answer None False, Answer (Some OnlyCreatorReveals) True]\<rparr> \<and>
   uid alice = creator_id s_open \<and> get_votes w_open ''s1'' = [] \<and>
   cb_reveal env0 alice ''reveal|s1'' w_open =
     w_open\<lparr>events := events w_open @ [Answer None False, Reply NoVotesYet None]\<rparr> \<and>
   sessions (cb_reveal env0 alice ''reveal|s1'' w_open) = [s_open]"
proof -
  have h: "get_session w_open ''s1'' = Some s_open"
    by (rule get_session_w_open)
  have b: "uid bob \<noteq> creator_id s_open" and a: "uid alice = creator_id s_open"
    by (simp_all add: alice_def bob_def s_open_def)
  have v: "get_votes w_open ''s1'' = []" and s: "sessions w_open = [s_open]"
    by (simp_all add: w_open_eq get_votes_def)
  show ?thesis
    using reveal_errors [OF h, where u = bob and e = env0]
      reveal_errors [OF h, where u = alice and e = env0] h a b v s
    by simp
qed

section \<open>Accepted votes\<close>

lemma set_vote_simps [simp]:
  "sessions (set_vote e sid u val w) = sessions w"
  "session_members (set_vote e sid u val w) = session_members w"
  "events (set_vote e sid u val w) = events w"
  "get_session (set_vote e sid u val w) sid' = get_session w sid'"
  "get_members (set_vote e sid u val w) sid' = get_members w sid'"
  by (simp_all add: set_vote_def get_session_def get_members_def)

lemma get_votes_set_vote:
  "get_votes (set_vote e sid u val w) sid =
     sort_key v_user_id
       (filter (\<lambda>v. v_user_id v \<noteq> uid u) (filter (\<lambda>v. v_session_id v = sid) (votes w)) @
        [\<lparr>v_session_id = sid, v_user_id = uid u, v_value = val, voted_at = now_iso e\<rparr>])"
proof -
  have "filter (\<lambda>v. v_session_id v = sid)
          (filter (\<lambda>v. \<not> (v_session_id v = sid \<and> v_user_id v = uid u)) (votes w)) =
        filter (\<lambda>v. v_user_id v \<noteq> uid u) (filter (\<lambda>v. v_session_id v = sid) (votes w))"
    by (auto intro: filter_cong)
  then show ?thesis
    by (simp add: set_vote_def get_votes_def)
qed

lemma set_get_votes_set_vote:
  "set (get_votes (set_vote e sid u val w) sid) =
     insert \<lparr>v_session_id = sid, v_user_id = uid u, v_value = val, voted_at = now_iso e\<rparr>
       {v \<in> set (get_votes w sid). v_user_id v \<noteq> uid u}"
  by (auto simp: set_vote_def get_votes_def)

lemma own_vote_after_set_vote:
  "filter (\<lambda>v. v_user_id v = uid u) (get_votes (set_vote e sid u val w) sid) =
     [\<lparr>v_session_id = sid, v_user_id = uid u, v_value = val, voted_at = now_iso e\<rparr>]"
proof -
  have "filter (\<lambda>v. v_user_id v = uid u)
          (filter (\<lambda>v. v_user_id v \<noteq> uid u) (filter (\<lambda>v. v_session_id v = sid) (votes w))) = []"
    by (simp add: filter_empty_conv)
  then show ?thesis
    by (simp add: get_votes_set_vote filter_sort)
qed

lemma set_vote_emit: "set_vote e sid u val (emit ev w) = emit ev (set_vote e sid u val w)"
  by (simp add: set_vote_def emit_def)

lemma cb_vote_open:
  assumes "get_session w sid = Some s" and "status s = ''open''" and "CHR ''|'' \<notin> set sid"
  shows "cb_vote e u (''vote|'' @ sid @ ''|'' @ val) w =
     (let w2 = set_vote e sid u val w;
          ack = (if uid u = creator_id s
                 then EditText (VotedAsFacilitator val) (Some (VoteKeyboard sid))
                 else EditText (VoteSaved val) None);
          ms = get_members w sid;
          vs = get_votes w2 sid
      in w2\<lparr>events := events w @ [Answer None False, ack] @
           (if ms \<noteq> [] \<and> length (remdups (map v_user_id vs)) = length ms
            then deliveries e ms (Results (results_text e s sid vs ms)) @
                 (if can_deliver e (creator_id s)
                  then [SendMessage (creator_id s) AllVoted None] else [])
            else [])\<rparr>)"
proof -
  have vs_ne: "get_votes (set_vote e sid u val w) sid \<noteq> []"
    using set_get_votes_set_vote [of e sid u val w] by auto
  show ?thesis
    unfolding cb_vote_def split_vote [OF assms(3)] using assms(1,2) vs_ne
    by (simp add: Let_def set_vote_emit compose_eq bot_send_message_def)
qed

lemma s_open_is_open: "status s_open = ''open''"
  by (simp add: s_open_def)

lemma no_bar_s1: "CHR ''|'' \<notin> set ''s1''"
  by simp

lemma votes_cb_vote_open:
  assumes "get_session w sid = Some s" and "status s = ''open''" and "CHR ''|'' \<notin> set sid"
  shows "votes (cb_vote e u (''vote|'' @ sid @ ''|'' @ val) w) = votes (set_vote e sid u val w)"
  by (subst cb_vote_open [OF assms]) (simp add: Let_def)

lemma events_cb_vote_open:
  assumes "get_session w sid = Some s" and "status s = ''open''" and "CHR ''|'' \<notin> set sid"
  shows "events (cb_vote e u (''vote|'' @ sid @ ''|'' @ val) w) =
     events w @
     [Answer None False,
      if uid u = creator_id s then EditText (VotedAsFacilitator val) (Some (VoteKeyboard sid))
      else EditText (VoteSaved val) None] @
     (if get_members w sid \<noteq> [] \<and>
         length (remdups (map v_user_id (get_votes (set_vote e sid u val w) sid))) =
           length (get_members w sid)
      then deliveries e (get_members w sid)
             (Results (results_text e s sid (get_votes (set_vote e sid u val w) sid)
                (get_members w sid))) @
           (if can_deliver e (creator_id s) then [SendMessage (creator_id s) AllVoted None]
            else [])
      else [])"
  by (subst cb_vote_open [OF assms]) (simp add: Let_def)

section \<open>Votes outside the card set\<close>

text \<open>
  The handler never compares the value with \<open>VOTE_OPTIONS\<close>: Bob's vote \<^verbatim>\<open>7\<close>, which
  is no card, is stored in the open session.
\<close>

theorem vote_invalid_value_counterexample:
  "get_session w_open ''s1'' = Some s_open \<and> status s_open = ''open'' \<and>
   ''7'' \<notin> set VOTE_OPTIONS \<and> votes w_open = [] \<and>
   votes (cb_vote env0 bob ''vote|s1|7'' w_open) = [bob_vote_7]"
proof -
  have "votes (cb_vote env0 bob (''vote|'' @ ''s1'' @ ''|'' @ ''7'') w_open) =
          votes (set_vote env0 ''s1'' bob ''7'' w_open)"
    by (rule votes_cb_vote_open [OF get_session_w_open s_open_is_open no_bar_s1])
  moreover have "votes (set_vote env0 ''s1'' bob ''7'' w_open) = [bob_vote_7]"
    by (simp add: set_vote_def w_open_eq bob_vote_7_def bob_def env0_def)
  moreover have "votes w_open = []"
    by (simp add: w_open_eq)
  moreover have "''7'' \<notin> set VOTE_OPTIONS"
    by (simp add: VOTE_OPTIONS_def half_card_def)
  ultimately show ?thesis
    by (simp add: get_session_w_open s_open_is_open)
qed

text \<open>
  Claim C1, as the code has it. A vote on an existing open session is accepted whatever
  string its value is, a card or not: the user's earlier row of that session is replaced
  by one row holding the value, and the handler acknowledges the value as saved. There is
  no rejection of a value.
\<close>

theorem vote_accepts_any_value:
  assumes "get_session w sid = Some s" and "status s = ''open''" and "CHR ''|'' \<notin> set sid"
  shows "votes (cb_vote e u (''vote|'' @ sid @ ''|'' @ val) w) =
           filter (\<lambda>v. \<not> (v_session_id v = sid \<and> v_user_id v = uid u)) (votes w) @
           [\<lparr>v_session_id = sid, v_user_id = uid u, v_value = val, voted_at = now_iso e\<rparr>]
       \<and> take 2 (drop (length (events w))
            (events (cb_vote e u (''vote|'' @ sid @ ''|'' @ val) w))) =
           [Answer None False,
            if uid u = creator_id s
            then EditText (VotedAsFacilitator val) (Some (VoteKeyboard sid))
            else EditText (VoteSaved val) None]"
  unfolding votes_cb_vote_open [OF assms] events_cb_vote_open [OF assms]
  by (simp add: set_vote_def)

theorem vote_accepts_any_value_witness:
  "get_session w_open ''s1'' = Some s_open \<and> status s_open = ''open'' \<and>
   CHR ''|'' \<notin> set ''s1'' \<and>
   votes (cb_vote env0 bob ''vote|s1|banana'' w_open) =
     [\<lparr>v_session_id = ''s1'', v_user_id = 2, v_value = ''banana'', voted_at = ''t''\<rparr>] \<and>
   take 2 (drop (length (events w_open)) (events (cb_vote env0 bob ''vote|s1|banana'' w_open))) =
     [Answer None False, EditText (VoteSaved ''banana'') None]"
proof -
  have v: "votes w_open = []" and c: "uid bob \<noteq> creator_id s_open"
    and b: "uid bob = 2" and n: "now_iso env0 = ''t''"
    by (simp_all add: w_open_eq bob_def s_open_def env0_def)
  show ?thesis
    using vote_accepts_any_value [OF get_session_w_open s_open_is_open no_bar_s1,
        where e = env0 and u = bob and val = "''banana''"]
      get_session_w_open s_open_is_open v c b n
    by simp
qed

section \<open>Votes and membership\<close>

lemma compose_store:
  "sessions (snd (compose_and_broadcast_results e sid w)) = sessions w \<and>
   session_members (snd (compose_and_broadcast_results e sid w)) = session_members w \<and>
   votes (snd (compose_and_broadcast_results e sid w)) = votes w"
  by (simp add: compose_eq split: option.splits)

lemma cb_vote_members: "session_members (cb_vote e u data w) = session_members w"
proof -
  have c: "\<And>e sid w r w'. compose_and_broadcast_results e sid w = (r, w') \<Longrightarrow>
             session_members w' = session_members w"
    using compose_store by (metis snd_conv)
  show ?thesis
    by (auto simp: cb_vote_def Let_def bot_send_message_def dest: c
        split: list.splits option.splits prod.splits)
qed

text \<open>
  Bob never joined; his vote is stored and the membership table still holds Alice alone.
\<close>

theorem vote_without_membership_counterexample:
  "get_session w_open ''s1'' = Some s_open \<and> status s_open = ''open'' \<and>
   votes (cb_vote env0 bob ''vote|s1|5'' w_open) = [bob_vote_5] \<and>
   session_members (cb_vote env0 bob ''vote|s1|5'' w_open) = [alice_row] \<and>
   m_user_id alice_row \<noteq> uid bob"
proof -
  have "votes (cb_vote env0 bob (''vote|'' @ ''s1'' @ ''|'' @ ''5'') w_open) =
          votes (set_vote env0 ''s1'' bob ''5'' w_open)"
    by (rule votes_cb_vote_open [OF get_session_w_open s_open_is_open no_bar_s1])
  moreover have "votes (set_vote env0 ''s1'' bob ''5'' w_open) = [bob_vote_5]"
    by (simp add: set_vote_def w_open_eq bob_vote_5_def bob_def env0_def)
  moreover have "session_members w_open = [alice_row]"
    by (simp add: w_open_eq)
  moreover have "m_user_id alice_row \<noteq> uid bob"
    by (simp add: alice_row_def bob_def)
  ultimately show ?thesis
    by (simp add: get_session_w_open s_open_is_open cb_vote_members)
qed

text \<open>
  Claim C3, as the code has it. The vote handler never writes the membership table: after
  it, found or not, open or closed, accepted or not, the membership rows are those before
  it, so a voter is a member afterwards exactly when they were one before.
\<close>

theorem vote_leaves_membership:
  "session_members (cb_vote e u data w) = session_members w"
  by (rule cb_vote_members)

section \<open>The results text\<close>

lemma histogram_of_append: "histogram_of (xs @ ys) = histogram_of xs @ histogram_of ys"
  by (induction xs rule: histogram_of.induct) simp_all

lemma totals_of_append: "totals_of (xs @ ys) = totals_of xs @ totals_of ys"
  by (induction xs rule: totals_of.induct) simp_all

lemma roster_of_append: "roster_of (xs @ ys) = roster_of xs @ roster_of ys"
  by (induction xs rule: roster_of.induct) simp_all

lemma stats_of_append: "stats_of (xs @ ys) = stats_of xs @ stats_of ys"
  by (induction xs rule: stats_of.induct) simp_all

lemma tally_counts:
  "fst (tally e vs (c, ns)) k =
     (if count_list (map v_value vs) k = 0 then c k
      else Some ((case c k of None \<Rightarrow> 0 | Some m \<Rightarrow> m) + count_list (map v_value vs) k))"
  by (induction vs arbitrary: c ns) (simp_all add: Let_def)

lemma tally_counts_empty:
  "fst (tally e vs (Map.empty, [])) k =
     (if k \<in> set (map v_value vs) then Some (count_list (map v_value vs) k) else None)"
  by (simp add: tally_counts count_list_0_iff del: set_map)

lemma count_lines_parts:
  "histogram_of (count_lines counts opts) =
     map (\<lambda>opt. (opt, the (counts opt))) (filter (\<lambda>opt. counts opt \<noteq> None) opts)"
  "totals_of (count_lines counts opts) = []"
  "roster_of (count_lines counts opts) = []"
  "stats_of (count_lines counts opts) = []"
  by (induction opts)
     (auto simp: count_lines_def histogram_of_append totals_of_append roster_of_append
        stats_of_append split: option.splits)

lemma stats_lines_parts:
  "histogram_of (stats_lines nv) = []"
  "totals_of (stats_lines nv) = []"
  "roster_of (stats_lines nv) = []"
  "stats_of (stats_lines nv) = stats_lines nv"
  by (auto simp: stats_lines_def split: sum.splits)

lemma results_text_eq:
  "results_text e s sid vs ms =
     [ResultsHeader (title s) sid] @
     count_lines (fst (tally e vs (Map.empty, []))) VOTE_OPTIONS @
     [TotalLine (length vs)] @
     stats_lines (snd (tally e vs (Map.empty, []))) @
     (if filter (\<lambda>m. m_user_id m \<notin> set (map v_user_id vs)) ms \<noteq> []
      then NotVotedHeader #
           map (\<lambda>m. NotVotedLine (display_of m))
             (filter (\<lambda>m. m_user_id m \<notin> set (map v_user_id vs)) ms)
      else [])"
  by (simp add: results_text_def Let_def count_lines_def stats_lines_def case_prod_beta)

lemma roster_of_not_voted: "roster_of (map (\<lambda>m. NotVotedLine (display_of m)) ms) = map display_of ms"
  by (induction ms) simp_all

lemma other_parts_not_voted:
  "histogram_of (map (\<lambda>m. NotVotedLine (display_of m)) ms) = []"
  "totals_of (map (\<lambda>m. NotVotedLine (display_of m)) ms) = []"
  "stats_of (map (\<lambda>m. NotVotedLine (display_of m)) ms) = []"
  by (induction ms) simp_all

lemma histogram_of_results_text:
  "histogram_of (results_text e s sid vs ms) =
     map (\<lambda>opt. (opt, count_list (map v_value vs) opt))
       (filter (\<lambda>opt. opt \<in> set (map v_value vs)) VOTE_OPTIONS)"
proof -
  have "histogram_of (results_text e s sid vs ms) =
          map (\<lambda>opt. (opt, the (fst (tally e vs (Map.empty, [])) opt)))
            (filter (\<lambda>opt. fst (tally e vs (Map.empty, [])) opt \<noteq> None) VOTE_OPTIONS)"
    by (simp add: results_text_eq histogram_of_append count_lines_parts stats_lines_parts
        other_parts_not_voted del: set_map)
  also have "\<dots> = map (\<lambda>opt. (opt, count_list (map v_value vs) opt))
       (filter (\<lambda>opt. opt \<in> set (map v_value vs)) VOTE_OPTIONS)"
    unfolding tally_counts_empty by (auto intro!: map_cong filter_cong simp del: set_map)
  finally show ?thesis .
qed

lemma totals_of_results_text: "totals_of (results_text e s sid vs ms) = [length vs]"
  by (simp add: results_text_eq totals_of_append count_lines_parts stats_lines_parts
      other_parts_not_voted del: set_map)

lemma roster_of_results_text:
  "roster_of (results_text e s sid vs ms) =
     map display_of (filter (\<lambda>m. m_user_id m \<notin> set (map v_user_id vs)) ms)"
  by (simp add: results_text_eq roster_of_append count_lines_parts stats_lines_parts
      roster_of_not_voted del: set_map)

lemma stats_of_results_text:
  "stats_of (results_text e s sid vs ms) = stats_lines (snd (tally e vs (Map.empty, [])))"
  by (simp add: results_text_eq stats_of_append count_lines_parts stats_lines_parts
      other_parts_not_voted del: set_map)


lemma sorted_get_members: "sorted (map m_user_id (get_members w sid))"
  by (simp add: get_members_def)

lemma set_get_members:
  "set (get_members w sid) = {m \<in> set (session_members w). m_session_id m = sid}"
  by (auto simp: get_members_def)

text \<open>
  Claim C7, as the code has it. In the text \<^verbatim>\<open>compose_and_broadcast_results\<close> returns,
  the count lines are those of the cards of \<open>VOTE_OPTIONS\<close> that some vote of the session
  holds, in the order of \<open>VOTE_OPTIONS\<close>, each with the number of votes holding it; the
  total is the number of vote rows, \<^verbatim>\<open>?\<close> included; and the roster of those who have not
  voted is the members of the session without a vote row, in the order the members are
  read, which is ascending \<^verbatim>\<open>user_id\<close> and not the order of joining.
\<close>

theorem results_histogram_total_roster:
  assumes "fst (compose_and_broadcast_results e sid w) = Some lines"
  shows "histogram_of lines =
           map (\<lambda>opt. (opt, count_list (map v_value (get_votes w sid)) opt))
             (filter (\<lambda>opt. opt \<in> set (map v_value (get_votes w sid))) VOTE_OPTIONS)
       \<and> totals_of lines = [length (get_votes w sid)]
       \<and> roster_of lines =
           map display_of
             (filter (\<lambda>m. m_user_id m \<notin> set (map v_user_id (get_votes w sid)))
                (get_members w sid))
       \<and> set (get_members w sid) = {m \<in> set (session_members w). m_session_id m = sid}
       \<and> sorted (map m_user_id (get_members w sid))"
proof -
  from assms obtain s where
    "lines = results_text e s sid (get_votes w sid) (get_members w sid)"
    by (auto simp: compose_eq split: option.splits if_splits)
  then show ?thesis
    by (simp only: histogram_of_results_text totals_of_results_text roster_of_results_text
        set_get_members sorted_get_members simp_thms)
qed

theorem results_histogram_total_roster_witness:
  "fst (compose_and_broadcast_results env0 ''s1'' w_poll) =
     Some (results_text env0 s_open ''s1'' (votes w_poll) (session_members w_poll)) \<and>
   histogram_of (results_text env0 s_open ''s1'' (votes w_poll) (session_members w_poll)) =
     [(''8'', 1), (''?'', 1)] \<and>
   totals_of (results_text env0 s_open ''s1'' (votes w_poll) (session_members w_poll)) = [2] \<and>
   roster_of (results_text env0 s_open ''s1'' (votes w_poll) (session_members w_poll)) =
     [Name ''Bob''] \<and>
   set (get_members w_poll ''s1'') = {alice_row, bob_row, carol_row} \<and>
   sorted (map m_user_id (get_members w_poll ''s1''))"
proof -
  have g: "get_session w_poll ''s1'' = Some s_open"
    by (simp add: w_poll_def get_session_def s_open_def)
  have v: "get_votes w_poll ''s1'' = votes w_poll"
    and m: "get_members w_poll ''s1'' = session_members w_poll"
    by (simp_all add: w_poll_def get_votes_def get_members_def alice_row_def bob_row_def
        carol_row_def)
  have ne: "votes w_poll \<noteq> []"
    by (simp add: w_poll_def)
  have h: "fst (compose_and_broadcast_results env0 ''s1'' w_poll) =
     Some (results_text env0 s_open ''s1'' (votes w_poll) (session_members w_poll))"
    by (simp add: compose_eq g v m ne)
  have k: "{m \<in> set (session_members w_poll). m_session_id m = ''s1''} =
             {alice_row, bob_row, carol_row}"
    by (auto simp: w_poll_def alice_row_def bob_row_def carol_row_def)
  show ?thesis
    using results_histogram_total_roster [OF h] h
    unfolding v m k
    by (simp add: w_poll_def alice_row_def bob_row_def
        carol_row_def display_of_def VOTE_OPTIONS_def half_card_def)
qed

section \<open>The automatic reveal\<close>

lemma get_votes_w_open: "get_votes w_open ''s1'' = []"
  by (simp add: w_open_eq get_votes_def)

lemma get_members_w_open: "get_members w_open ''s1'' = [alice_row]"
  by (simp add: w_open_eq get_members_def alice_row_def)

lemma env0_delivers: "can_deliver env0 x"
  by (simp add: env0_def)

text \<open>
  Claim C2. The handler compares the number of distinct voters with the number of members,
  not the two sets. In the session Alice opened she is the only member; Bob, who never
  joined, votes. The voters are \<open>{2}\<close> and the members \<open>{1}\<close>, one each, and the results
  are sent to Alice, with Alice on the roster of those who have not voted, followed by the
  notice that all participants have voted.
\<close>

theorem auto_reveal_on_unequal_sets:
  "map m_user_id (get_members w_open ''s1'') = [1] \<and>
   map v_user_id (get_votes (cb_vote env0 bob ''vote|s1|5'' w_open) ''s1'') = [2] \<and>
   events (cb_vote env0 bob ''vote|s1|5'' w_open) =
     events w_open @
     [Answer None False, EditText (VoteSaved ''5'') None,
      SendMessage 1 (Results (results_text env0 s_open ''s1'' [bob_vote_5] [alice_row])) None,
      SendMessage 1 AllVoted None] \<and>
   roster_of (results_text env0 s_open ''s1'' [bob_vote_5] [alice_row]) = [Name ''alice'']"
proof -
  note o = get_session_w_open s_open_is_open no_bar_s1
  have v: "get_votes (set_vote env0 ''s1'' bob ''5'' w_open) ''s1'' = [bob_vote_5]"
    by (simp add: get_votes_def set_vote_def w_open_eq bob_vote_5_def bob_def env0_def)
  have "votes (cb_vote env0 bob (''vote|'' @ ''s1'' @ ''|'' @ ''5'') w_open) =
          votes (set_vote env0 ''s1'' bob ''5'' w_open)"
    by (rule votes_cb_vote_open [OF o])
  then have "get_votes (cb_vote env0 bob ''vote|s1|5'' w_open) ''s1'' = [bob_vote_5]"
    using v by (simp add: get_votes_def)
  moreover have "events (cb_vote env0 bob (''vote|'' @ ''s1'' @ ''|'' @ ''5'') w_open) =
     events w_open @
     [Answer None False, EditText (VoteSaved ''5'') None,
      SendMessage 1 (Results (results_text env0 s_open ''s1'' [bob_vote_5] [alice_row])) None,
      SendMessage 1 AllVoted None]"
    unfolding events_cb_vote_open [OF o] v get_members_w_open
    by (simp add: deliveries_def env0_delivers bob_def s_open_def alice_row_def bob_vote_5_def)
  moreover have "roster_of (results_text env0 s_open ''s1'' [bob_vote_5] [alice_row]) =
      [Name ''alice'']"
    by (simp add: roster_of_results_text bob_vote_5_def alice_row_def display_of_def)
  ultimately show ?thesis
    by (simp add: get_members_w_open alice_row_def bob_vote_5_def)
qed

lemma w_voted_eq:
  "w_voted = \<lparr>sessions = [s_open], session_members = [alice_row], votes = [alice_vote_5],
     events = events w_open @
       [Answer None False, EditText (VotedAsFacilitator ''5'') (Some (VoteKeyboard ''s1'')),
        SendMessage 1 (Results (results_text env0 s_open ''s1'' [alice_vote_5] [alice_row])) None,
        SendMessage 1 AllVoted None]\<rparr>"
proof -
  note o = get_session_w_open s_open_is_open no_bar_s1
  have v: "get_votes (set_vote env0 ''s1'' alice ''5'' w_open) ''s1'' = [alice_vote_5]"
    by (simp add: get_votes_def set_vote_def w_open_eq alice_vote_5_def alice_def env0_def)
  have s: "set_vote env0 ''s1'' alice ''5'' w_open = w_open\<lparr>votes := [alice_vote_5]\<rparr>"
    by (simp add: set_vote_def w_open_eq alice_vote_5_def alice_def env0_def)
  have "w_voted = cb_vote env0 alice (''vote|'' @ ''s1'' @ ''|'' @ ''5'') w_open"
    by (simp add: w_voted_def)
  also have "\<dots> = w_open\<lparr>votes := [alice_vote_5],
     events := events w_open @
       [Answer None False, EditText (VotedAsFacilitator ''5'') (Some (VoteKeyboard ''s1'')),
        SendMessage 1 (Results (results_text env0 s_open ''s1'' [alice_vote_5] [alice_row])) None,
        SendMessage 1 AllVoted None]\<rparr>"
    unfolding cb_vote_open [OF o] Let_def v get_members_w_open
    unfolding s
    by (simp add: deliveries_def env0_delivers alice_def s_open_def alice_row_def
        alice_vote_5_def)
  finally show ?thesis
    by (simp add: w_open_eq)
qed

lemma revote_voters:
  assumes "uid u \<in> set (map v_user_id (get_votes w sid))"
  shows "set (map v_user_id (get_votes (set_vote e sid u val w) sid)) =
           set (map v_user_id (get_votes w sid))"
  using assms by (auto simp: set_get_votes_set_vote)

lemma distinct_member_ids:
  assumes "keys_unique w"
  shows "distinct (map m_user_id (get_members w sid))"
proof -
  from assms have d: "distinct (map (\<lambda>m. (m_session_id m, m_user_id m)) (session_members w))"
    by (simp add: keys_unique_def)
  then have "distinct (map (\<lambda>m. (m_session_id m, m_user_id m))
               (filter (\<lambda>m. m_session_id m = sid) (session_members w)))"
    by (rule distinct_map_filter)
  then have "distinct (map m_user_id (filter (\<lambda>m. m_session_id m = sid) (session_members w)))"
    by (auto simp: distinct_map inj_on_def)
  then show ?thesis
    by (simp add: get_members_def distinct_map)
qed

text \<open>
  Claim C4, as the code has it. The handler keeps no trace of a reveal. When a user who
  has a vote in an open session votes again, and the voters of the session were exactly
  its members before (every member has voted and nobody else; the primary keys hold), the
  set of voters is unchanged and the results are sent to every member once more, then the
  notice to the creator, whatever the event log already holds.
\<close>

theorem revote_broadcasts_again:
  assumes "get_session w sid = Some s" and "status s = ''open''" and "CHR ''|'' \<notin> set sid"
    and "keys_unique w"
    and "uid u \<in> set (map v_user_id (get_votes w sid))"
    and "set (map v_user_id (get_votes w sid)) = set (map m_user_id (get_members w sid))"
  shows "set (map v_user_id (get_votes (cb_vote e u (''vote|'' @ sid @ ''|'' @ val) w) sid)) =
           set (map v_user_id (get_votes w sid))
       \<and> events (cb_vote e u (''vote|'' @ sid @ ''|'' @ val) w) =
           events w @
           [Answer None False,
            if uid u = creator_id s
            then EditText (VotedAsFacilitator val) (Some (VoteKeyboard sid))
            else EditText (VoteSaved val) None] @
           deliveries e (get_members w sid)
             (Results (results_text e s sid
                (get_votes (cb_vote e u (''vote|'' @ sid @ ''|'' @ val) w) sid)
                (get_members w sid))) @
           (if can_deliver e (creator_id s) then [SendMessage (creator_id s) AllVoted None]
            else [])"
proof -
  note o = assms(1-3)
  have gv: "get_votes (cb_vote e u (''vote|'' @ sid @ ''|'' @ val) w) sid =
              get_votes (set_vote e sid u val w) sid"
    using votes_cb_vote_open [OF o, of e u val] by (simp add: get_votes_def)
  have ne: "get_members w sid \<noteq> []"
    using assms(5,6) by auto
  have "length (remdups (map v_user_id (get_votes (set_vote e sid u val w) sid))) =
          card (set (map m_user_id (get_members w sid)))"
    unfolding length_remdups_card_conv revote_voters [OF assms(5)] assms(6) ..
  also have "\<dots> = length (map m_user_id (get_members w sid))"
    by (rule distinct_card [OF distinct_member_ids [OF assms(4)]])
  finally have c: "length (remdups (map v_user_id (get_votes (set_vote e sid u val w) sid))) =
          length (get_members w sid)"
    by simp
  show ?thesis
    unfolding gv events_cb_vote_open [OF o] revote_voters [OF assms(5)]
    using ne c by simp
qed


lemma w_voted_reads:
  "get_session w_voted ''s1'' = Some s_open"
  "get_members w_voted ''s1'' = [alice_row]"
  "get_votes w_voted ''s1'' = [alice_vote_5]"
  by (simp_all add: w_voted_eq get_session_def get_members_def get_votes_def s_open_def
      alice_row_def alice_vote_5_def)

lemma revote_8:
  "get_votes (set_vote env0 ''s1'' alice ''8'' w_voted) ''s1'' = [alice_vote_8]"
  by (simp add: get_votes_def set_vote_def w_voted_eq alice_vote_5_def alice_vote_8_def
      alice_def env0_def)

text \<open>
  Alice, the only member, votes \<^verbatim>\<open>5\<close> and the results go out; she then votes \<^verbatim>\<open>8\<close>. The
  set of voters is the same, no vote was reset and nobody joined, and the results go out a
  second time.
\<close>

theorem auto_reveal_repeats_counterexample:
  "set (map v_user_id (get_votes (cb_vote env0 alice ''vote|s1|8'' w_voted) ''s1'')) =
     set (map v_user_id (get_votes w_voted ''s1'')) \<and>
   events w_voted =
     events w_open @
     [Answer None False, EditText (VotedAsFacilitator ''5'') (Some (VoteKeyboard ''s1'')),
      SendMessage 1 (Results (results_text env0 s_open ''s1'' [alice_vote_5] [alice_row])) None,
      SendMessage 1 AllVoted None] \<and>
   events (cb_vote env0 alice ''vote|s1|8'' w_voted) =
     events w_voted @
     [Answer None False, EditText (VotedAsFacilitator ''8'') (Some (VoteKeyboard ''s1'')),
      SendMessage 1 (Results (results_text env0 s_open ''s1'' [alice_vote_8] [alice_row])) None,
      SendMessage 1 AllVoted None]"
proof -
  note o = w_voted_reads(1) s_open_is_open no_bar_s1
  have "votes (cb_vote env0 alice (''vote|'' @ ''s1'' @ ''|'' @ ''8'') w_voted) =
          votes (set_vote env0 ''s1'' alice ''8'' w_voted)"
    by (rule votes_cb_vote_open [OF o])
  then have "get_votes (cb_vote env0 alice ''vote|s1|8'' w_voted) ''s1'' = [alice_vote_8]"
    using revote_8 by (simp add: get_votes_def)
  moreover have "events (cb_vote env0 alice (''vote|'' @ ''s1'' @ ''|'' @ ''8'') w_voted) =
     events w_voted @
     [Answer None False, EditText (VotedAsFacilitator ''8'') (Some (VoteKeyboard ''s1'')),
      SendMessage 1 (Results (results_text env0 s_open ''s1'' [alice_vote_8] [alice_row])) None,
      SendMessage 1 AllVoted None]"
    unfolding events_cb_vote_open [OF o] revote_8 w_voted_reads
    by (simp add: deliveries_def env0_delivers alice_def s_open_def alice_row_def alice_vote_8_def)
  moreover have "events w_voted =
     events w_open @
     [Answer None False, EditText (VotedAsFacilitator ''5'') (Some (VoteKeyboard ''s1'')),
      SendMessage 1 (Results (results_text env0 s_open ''s1'' [alice_vote_5] [alice_row])) None,
      SendMessage 1 AllVoted None]"
    by (simp add: w_voted_eq)
  ultimately show ?thesis
    by (simp add: w_voted_reads alice_vote_5_def alice_vote_8_def)
qed

theorem revote_broadcasts_again_witness:
  "get_session w_voted ''s1'' = Some s_open \<and> status s_open = ''open'' \<and>
   CHR ''|'' \<notin> set ''s1'' \<and> keys_unique w_voted \<and>
   uid alice \<in> set (map v_user_id (get_votes w_voted ''s1'')) \<and>
   set (map v_user_id (get_votes w_voted ''s1'')) =
     set (map m_user_id (get_members w_voted ''s1'')) \<and>
   SendMessage 1 (Results (results_text env0 s_open ''s1'' [alice_vote_5] [alice_row])) None
     \<in> set (events w_voted) \<and>
   set (map v_user_id (get_votes (cb_vote env0 alice ''vote|s1|8'' w_voted) ''s1'')) = {1} \<and>
   events (cb_vote env0 alice ''vote|s1|8'' w_voted) =
     events w_voted @
     [Answer None False, EditText (VotedAsFacilitator ''8'') (Some (VoteKeyboard ''s1''))] @
     deliveries env0 [alice_row]
       (Results (results_text env0 s_open ''s1''
          (get_votes (cb_vote env0 alice ''vote|s1|8'' w_voted) ''s1'') [alice_row])) @
     [SendMessage 1 AllVoted None]"
proof -
  have k: "keys_unique w_voted"
    by (simp add: keys_unique_def w_voted_eq)
  have a: "uid alice \<in> set (map v_user_id (get_votes w_voted ''s1''))"
    and c: "set (map v_user_id (get_votes w_voted ''s1'')) =
              set (map m_user_id (get_members w_voted ''s1''))"
    by (simp_all add: w_voted_reads alice_def alice_vote_5_def alice_row_def)
  have d: "SendMessage 1 (Results (results_text env0 s_open ''s1'' [alice_vote_5] [alice_row]))
             None \<in> set (events w_voted)"
    by (simp add: w_voted_eq)
  have f: "uid alice = creator_id s_open" "creator_id s_open = 1"
    "set (map v_user_id [alice_vote_5]) = {1}" "set (map m_user_id [alice_row]) = {1}"
    by (simp_all add: alice_def s_open_def alice_vote_5_def alice_row_def)
  show ?thesis
    using revote_broadcasts_again [OF w_voted_reads(1) s_open_is_open no_bar_s1 k a c,
        where e = env0 and val = "''8''"]
      k a c d
    by (simp add: w_voted_reads s_open_is_open env0_delivers f)
qed

section \<open>Primary keys\<close>

lemma keys_unique_cong:
  "votes w' = votes w \<Longrightarrow> session_members w' = session_members w \<Longrightarrow>
   keys_unique w' = keys_unique w"
  by (simp add: keys_unique_def)

lemma keys_unique_emit [simp]: "keys_unique (emit ev w) = keys_unique w"
  by (simp add: keys_unique_def)

lemma keys_unique_add_member: "keys_unique w \<Longrightarrow> keys_unique (add_member e sid u w)"
  by (auto simp: keys_unique_def add_member_def list_ex_iff)

lemma keys_unique_set_vote: "keys_unique w \<Longrightarrow> keys_unique (set_vote e sid u val w)"
  by (auto simp: keys_unique_def set_vote_def distinct_map_filter)

lemma keys_unique_clear_votes: "keys_unique w \<Longrightarrow> keys_unique (clear_votes sid w)"
  by (simp add: keys_unique_def clear_votes_def distinct_map_filter)

lemma keys_unique_set_session_status [simp]:
  "keys_unique (set_session_status sid st w) = keys_unique w"
  by (simp add: keys_unique_def set_session_status_def)

lemma keys_unique_compose:
  "keys_unique (snd (compose_and_broadcast_results e sid w)) = keys_unique w"
  by (rule keys_unique_cong) (simp_all add: compose_store)

lemma keys_unique_prompt_members [simp]:
  "keys_unique (prompt_members e ms msg kb w) = keys_unique w"
  by (rule keys_unique_cong) (simp_all add: prompt_members_store)

lemma keys_unique_cmd_new_session:
  "keys_unique w \<Longrightarrow> keys_unique (cmd_new_session e u args w)"
proof -
  have c: "\<And>sid w1. create_session e u (or_empty args) (Some []) w = Inr (sid, w1) \<Longrightarrow>
             keys_unique w1 = keys_unique w"
    by (auto simp: create_session_def Let_def keys_unique_def split: if_splits)
  assume "keys_unique w"
  then show ?thesis
    by (auto simp: cmd_new_session_def Let_def keys_unique_add_member c split: sum.splits)
qed

lemma keys_unique_cb_join: "keys_unique w \<Longrightarrow> keys_unique (cb_join e u data w)"
  by (auto simp: cb_join_def Let_def bot_send_message_def keys_unique_add_member
      split: list.splits option.splits)

lemma keys_unique_cb_vote: "keys_unique w \<Longrightarrow> keys_unique (cb_vote e u data w)"
proof -
  have c: "\<And>e sid w r w'. compose_and_broadcast_results e sid w = (r, w') \<Longrightarrow>
             keys_unique w' = keys_unique w"
    using keys_unique_compose by (metis snd_conv)
  assume "keys_unique w"
  then show ?thesis
    by (auto simp: cb_vote_def Let_def bot_send_message_def keys_unique_set_vote c
        split: list.splits option.splits prod.splits)
qed

lemma keys_unique_cb_reveal: "keys_unique w \<Longrightarrow> keys_unique (cb_reveal e u data w)"
proof -
  have c: "\<And>e sid w r w'. compose_and_broadcast_results e sid w = (r, w') \<Longrightarrow>
             keys_unique w' = keys_unique w"
    using keys_unique_compose by (metis snd_conv)
  assume "keys_unique w"
  then show ?thesis
    by (auto simp: cb_reveal_def Let_def c split: list.splits option.splits prod.splits)
qed

lemma keys_unique_cb_revote: "keys_unique w \<Longrightarrow> keys_unique (cb_revote e u data w)"
  by (auto simp: cb_revote_def Let_def keys_unique_clear_votes split: list.splits option.splits)

lemma keys_unique_cb_members: "keys_unique w \<Longrightarrow> keys_unique (cb_members e u data w)"
  by (auto simp: cb_members_def Let_def split: list.splits option.splits)

lemma keys_unique_cb_info: "keys_unique w \<Longrightarrow> keys_unique (cb_info e u data w)"
  by (auto simp: cb_info_def Let_def split: list.splits option.splits)

lemma keys_unique_cmd_close_session:
  "keys_unique w \<Longrightarrow> keys_unique (cmd_close_session e u args w)"
  by (auto simp: cmd_close_session_def Let_def split: option.splits)

lemma keys_unique_dispatch: "keys_unique w \<Longrightarrow> keys_unique (dispatch e upd w)"
  by (cases upd)
     (simp_all add: dispatch_def keys_unique_cmd_new_session keys_unique_cb_join
        keys_unique_cb_vote keys_unique_cb_reveal keys_unique_cb_revote keys_unique_cb_members
        keys_unique_cb_info keys_unique_cmd_close_session)

lemma keys_unique_init_db: "keys_unique init_db"
  by (simp add: keys_unique_def init_db_def)


lemma cb_vote_sessions: "sessions (cb_vote e u data w) = sessions w"
proof -
  have c: "\<And>e sid w r w'. compose_and_broadcast_results e sid w = (r, w') \<Longrightarrow>
             sessions w' = sessions w"
    using compose_store by (metis snd_conv)
  show ?thesis
    by (auto simp: cb_vote_def Let_def bot_send_message_def dest: c
        split: list.splits option.splits prod.splits)
qed

lemma get_session_cb_vote: "get_session (cb_vote e u data w) sid = get_session w sid"
  by (simp add: get_session_def cb_vote_sessions)

lemma get_session_fold_votes:
  "get_session (fold (\<lambda>(e, val). cb_vote e u (f val)) evs w) sid = get_session w sid"
  by (induction evs arbitrary: w) (simp_all add: get_session_cb_vote case_prod_beta)

lemma last_vote_wins:
  assumes "get_session w sid = Some s" and "status s = ''open''" and "CHR ''|'' \<notin> set sid"
    and "evs \<noteq> []"
  shows "filter (\<lambda>v. v_user_id v = uid u)
           (get_votes (fold (\<lambda>(e, val). cb_vote e u (''vote|'' @ sid @ ''|'' @ val)) evs w) sid) =
         [\<lparr>v_session_id = sid, v_user_id = uid u, v_value = snd (last evs),
           voted_at = now_iso (fst (last evs))\<rparr>]"
proof -
  from assms(4) obtain evs' e val where evs: "evs = evs' @ [(e, val)]"
    by (metis rev_exhaust surj_pair)
  define w' where "w' = fold (\<lambda>(e, val). cb_vote e u (''vote|'' @ sid @ ''|'' @ val)) evs' w"
  have g: "get_session w' sid = Some s"
    unfolding w'_def get_session_fold_votes by (rule assms(1))
  have f: "fold (\<lambda>(e, val). cb_vote e u (''vote|'' @ sid @ ''|'' @ val)) evs w =
          cb_vote e u (''vote|'' @ sid @ ''|'' @ val) w'"
    unfolding evs w'_def by simp
  have "get_votes (cb_vote e u (''vote|'' @ sid @ ''|'' @ val) w') sid =
          get_votes (set_vote e sid u val w') sid"
    unfolding get_votes_def votes_cb_vote_open [OF g assms(2,3)] ..
  then show ?thesis
    unfolding f by (simp add: evs own_vote_after_set_vote)
qed

lemma add_member_twice:
  "session_members (add_member e' sid u (add_member e sid u w)) =
     session_members (add_member e sid u w)"
  by (simp add: add_member_def list_ex_iff)

lemma cb_join_open:
  assumes "get_session w sid = Some s" and "status s = ''open''"
  shows "cb_join e u (''join|'' @ sid) w =
     (add_member e sid u w)\<lparr>events := events w @ Answer None False #
        (if can_deliver e (uid u)
         then [SendMessage (uid u) (Joined (title s) sid) (Some (VoteKeyboard sid)),
               Answer (Some KeyboardSent) False]
         else [LogException, Answer (Some CannotSendDM) True])\<rparr>"
  unfolding cb_join_def split_join using assms
  by (simp add: Let_def bot_send_message_def emit_def add_member_def get_session_def)

lemma rejoin:
  assumes "get_session w sid = Some s" and "status s = ''open''"
  shows "cb_join e' u (''join|'' @ sid) (cb_join e u (''join|'' @ sid) w) =
     (cb_join e u (''join|'' @ sid) w)
       \<lparr>events := events (cb_join e u (''join|'' @ sid) w) @ Answer None False #
          (if can_deliver e' (uid u)
           then [SendMessage (uid u) (Joined (title s) sid) (Some (VoteKeyboard sid)),
                 Answer (Some KeyboardSent) False]
           else [LogException, Answer (Some CannotSendDM) True])\<rparr>"
proof -
  define w1 where "w1 = cb_join e u (''join|'' @ sid) w"
  have m: "list_ex (\<lambda>m. m_session_id m = sid \<and> m_user_id m = uid u) (session_members w1)"
    unfolding w1_def cb_join_open [OF assms] by (simp add: add_member_def list_ex_iff)
  have g: "get_session w1 sid = Some s"
    unfolding w1_def cb_join_open [OF assms] using assms(1)
    by (simp add: add_member_def get_session_def)
  have "add_member e' sid u w1 = w1"
    using m by (simp add: add_member_def)
  then show ?thesis
    unfolding w1_def [symmetric] cb_join_open [OF g assms(2)] by simp
qed

text \<open>
  Claim C5. Every update the dispatcher handles keeps the primary keys: from a world with
  at most one vote row and at most one membership row for each session and user it leads
  to such a world, and the empty database is one. After any non-empty sequence of votes of
  one user in an existing open session, the user has exactly one vote row there, with the
  value and the time of the last vote. Joining an open session a second time changes no
  table and is answered like a first join: no second row, no error.
\<close>

theorem keys_stay_unique:
  "(keys_unique w \<longrightarrow> keys_unique (dispatch e upd w))
   \<and> keys_unique init_db
   \<and> (get_session w sid = Some s \<and> status s = ''open'' \<and> CHR ''|'' \<notin> set sid \<and> evs \<noteq> [] \<longrightarrow>
        filter (\<lambda>v. v_user_id v = uid u)
          (get_votes (fold (\<lambda>(e, val). cb_vote e u (''vote|'' @ sid @ ''|'' @ val)) evs w) sid) =
        [\<lparr>v_session_id = sid, v_user_id = uid u, v_value = snd (last evs),
          voted_at = now_iso (fst (last evs))\<rparr>])
   \<and> (get_session w sid = Some s \<and> status s = ''open'' \<longrightarrow>
        cb_join e' u (''join|'' @ sid) (cb_join e u (''join|'' @ sid) w) =
          (cb_join e u (''join|'' @ sid) w)
            \<lparr>events := events (cb_join e u (''join|'' @ sid) w) @ Answer None False #
               (if can_deliver e' (uid u)
                then [SendMessage (uid u) (Joined (title s) sid) (Some (VoteKeyboard sid)),
                      Answer (Some KeyboardSent) False]
                else [LogException, Answer (Some CannotSendDM) True])\<rparr>)"
  using keys_unique_dispatch keys_unique_init_db last_vote_wins rejoin by blast


theorem keys_stay_unique_witness:
  "keys_unique w_poll \<and>
   keys_unique (dispatch env0 (CallbackQuery bob ''vote|s1|3'') w_poll) \<and>
   keys_unique init_db \<and>
   get_session w_open ''s1'' = Some s_open \<and> status s_open = ''open'' \<and>
   CHR ''|'' \<notin> set ''s1'' \<and> [(env0, ''5''), (env0, ''8'')] \<noteq> [] \<and>
   filter (\<lambda>v. v_user_id v = uid alice)
     (get_votes (fold (\<lambda>(e, val). cb_vote e alice (''vote|'' @ ''s1'' @ ''|'' @ val))
        [(env0, ''5''), (env0, ''8'')] w_open) ''s1'') = [alice_vote_8] \<and>
   cb_join env0 alice ''join|s1'' (cb_join env0 alice ''join|s1'' w_open) =
     (cb_join env0 alice ''join|s1'' w_open)
       \<lparr>events := events (cb_join env0 alice ''join|s1'' w_open) @
          [Answer None False,
           SendMessage 1 (Joined ''Task'' ''s1'') (Some (VoteKeyboard ''s1'')),
           Answer (Some KeyboardSent) False]\<rparr> \<and>
   session_members (cb_join env0 alice ''join|s1'' w_open) = [alice_row]"
proof -
  have k: "keys_unique w_poll"
    by (simp add: keys_unique_def w_poll_def alice_row_def bob_row_def carol_row_def)
  note o = get_session_w_open s_open_is_open
  have n: "[(env0, ''5''), (env0, ''8'')] \<noteq> []"
    by simp
  have a: "\<lparr>v_session_id = ''s1'', v_user_id = uid alice,
            v_value = snd (last [(env0, ''5''), (env0, ''8'')]),
            voted_at = now_iso (fst (last [(env0, ''5''), (env0, ''8'')]))\<rparr> = alice_vote_8"
    by (simp add: alice_vote_8_def alice_def env0_def)
  have j: "session_members (cb_join env0 alice (''join|'' @ ''s1'') w_open) = [alice_row]"
    unfolding cb_join_open [OF o]
    by (simp add: add_member_def w_open_eq alice_row_def alice_def)
  have t: "title s_open = ''Task''" "uid alice = 1"
    by (simp_all add: s_open_def alice_def)
  from keys_stay_unique [where w = w_poll and e = env0 and upd = "CallbackQuery bob ''vote|s1|3''"] k
  have 1: "keys_unique (dispatch env0 (CallbackQuery bob ''vote|s1|3'') w_poll)"
    and 2: "keys_unique init_db"
    by blast+
  from keys_stay_unique [where w = w_open and sid = "''s1''" and s = s_open and u = alice
      and evs = "[(env0, ''5''), (env0, ''8'')]" and e' = env0 and e = env0] o no_bar_s1 n
  have 3: "filter (\<lambda>v. v_user_id v = uid alice)
     (get_votes (fold (\<lambda>(e, val). cb_vote e alice (''vote|'' @ ''s1'' @ ''|'' @ val))
        [(env0, ''5''), (env0, ''8'')] w_open) ''s1'') = [alice_vote_8]"
    and 4: "cb_join env0 alice (''join|'' @ ''s1'') (cb_join env0 alice (''join|'' @ ''s1'') w_open) =
     (cb_join env0 alice (''join|'' @ ''s1'') w_open)
       \<lparr>events := events (cb_join env0 alice (''join|'' @ ''s1'') w_open) @ Answer None False #
          (if can_deliver env0 (uid alice)
           then [SendMessage (uid alice) (Joined (title s_open) ''s1'') (Some (VoteKeyboard ''s1'')),
                 Answer (Some KeyboardSent) False]
           else [LogException, Answer (Some CannotSendDM) True])\<rparr>"
    unfolding a by blast+
  show ?thesis
    using k 1 2 o n 3 4 j by (simp add: env0_delivers t)
qed

section \<open>The roster and the order of joining\<close>

lemma w_joined_tables:
  "get_session w_joined ''s1'' = Some s_open"
  "session_members w_joined = [alice_row, carol_joined, bob_joined]"
  "votes w_joined = []"
proof -
  note c = get_session_w_open
  define w1 where "w1 = cb_join (env0\<lparr>now_iso := ''t1''\<rparr>) carol (''join|'' @ ''s1'') w_open"
  have g1: "get_session w1 ''s1'' = Some s_open"
    unfolding w1_def cb_join_open [OF c s_open_is_open] using c
    by (simp add: add_member_def get_session_def)
  have m1: "session_members w1 = [alice_row, carol_joined]" and v1: "votes w1 = []"
    unfolding w1_def cb_join_open [OF c s_open_is_open]
    by (simp_all add: add_member_def w_open_eq alice_row_def carol_def carol_joined_def
        or_empty_def)
  have w: "w_joined = cb_join (env0\<lparr>now_iso := ''t2''\<rparr>) bob (''join|'' @ ''s1'') w1"
    by (simp add: w_joined_def w1_def)
  show "get_session w_joined ''s1'' = Some s_open"
    unfolding w cb_join_open [OF g1 s_open_is_open] using g1
    by (simp add: add_member_def get_session_def)
  show "session_members w_joined = [alice_row, carol_joined, bob_joined]"
    unfolding w cb_join_open [OF g1 s_open_is_open]
    by (simp add: add_member_def m1 alice_row_def carol_joined_def bob_joined_def bob_def
        or_empty_def)
  show "votes w_joined = []"
    unfolding w cb_join_open [OF g1 s_open_is_open]
    by (simp add: add_member_def v1)
qed

text \<open>
  Carol joined before Bob, as the membership table and its \<^verbatim>\<open>joined_at\<close> column show.
  Once Alice has voted, the roster of those who have not voted names Bob before Carol: the
  rows are read by \<^verbatim>\<open>user_id\<close>.
\<close>

theorem roster_not_in_join_order_counterexample:
  "map (\<lambda>m. (m_user_id m, joined_at m)) (session_members w_roster) =
     [(1, ''t''), (3, ''t1''), (2, ''t2'')] \<and>
   map v_user_id (votes w_roster) = [1] \<and>
   map_option roster_of (fst (compose_and_broadcast_results env0 ''s1'' w_roster)) =
     Some [Name ''Bob'', Name ''carol'']"
proof -
  note o = w_joined_tables(1) s_open_is_open no_bar_s1
  have r: "w_roster = cb_vote env0 alice (''vote|'' @ ''s1'' @ ''|'' @ ''5'') w_joined"
    by (simp add: w_roster_def)
  have m: "session_members w_roster = [alice_row, carol_joined, bob_joined]"
    unfolding r cb_vote_members by (rule w_joined_tables(2))
  have v: "votes w_roster = [alice_vote_5]"
    unfolding r votes_cb_vote_open [OF o]
    by (simp add: set_vote_def w_joined_tables(3) alice_vote_5_def alice_def env0_def)
  have g: "get_session w_roster ''s1'' = Some s_open"
    unfolding r get_session_cb_vote by (rule w_joined_tables(1))
  have gv: "get_votes w_roster ''s1'' = [alice_vote_5]"
    by (simp add: get_votes_def v alice_vote_5_def)
  have gm: "get_members w_roster ''s1'' = [alice_row, bob_joined, carol_joined]"
    by (simp add: get_members_def m alice_row_def bob_joined_def carol_joined_def)
  have "map_option roster_of (fst (compose_and_broadcast_results env0 ''s1'' w_roster)) =
     Some [Name ''Bob'', Name ''carol'']"
    by (simp add: compose_eq g gv gm roster_of_results_text)
       (simp add: alice_vote_5_def alice_row_def bob_joined_def carol_joined_def display_of_def)
  then show ?thesis
    by (simp add: m v alice_row_def bob_joined_def carol_joined_def alice_vote_5_def)
qed

section \<open>Rounding\<close>

lemma round_half_even_bound: "\<bar>of_int (round_half_even x) - x\<bar> \<le> 1 / 2"
proof -
  have "of_int \<lfloor>x\<rfloor> \<le> x" and "x < of_int \<lfloor>x\<rfloor> + 1"
    by linarith+
  then show ?thesis
    by (auto simp: round_half_even_def Let_def abs_le_iff)
qed

lemma round_half_even_of_int [simp]: "round_half_even (of_int n) = n"
  by (simp add: round_half_even_def)

lemma format_2f_bound: "\<bar>of_int (format_2f x) / 100 - x\<bar> \<le> 1 / 200"
proof -
  have "\<bar>of_int (format_2f x) - x * 100\<bar> \<le> 1 / 2"
    unfolding format_2f_def by (rule round_half_even_bound)
  then show ?thesis
    by (simp add: abs_le_iff field_simps)
qed

lemma pow2_pos [simp]: "0 < pow2 k"
  by (simp add: pow2_def)

lemma pow2_power_int: "pow2 k = power_int 2 k"
  by (simp add: pow2_def power_int_def power_one_over inverse_eq_divide)

lemma pow2_add: "pow2 (i + j) = pow2 i * pow2 j"
  by (simp add: pow2_power_int power_int_add)

lemma pow2_diff_nat: "pow2 (int i - int j) = 2 ^ i / 2 ^ j"
  by (simp add: pow2_power_int power_int_diff)

lemma floor_log2_le:
  assumes "0 < q"
  shows "pow2 (floor_log2 q) \<le> q"
proof -
  obtain a b where ab: "quotient_of q = (a, b)"
    by (cases "quotient_of q")
  then have b: "0 < b" and q: "q = of_int a / of_int b"
    by (simp_all add: quotient_of_denom_pos quotient_of_div)
  with assms have a: "0 < a"
    by (simp add: zero_less_divide_iff)
  define la lb where "la = floorlog 2 (nat a)" and "lb = floorlog 2 (nat b)"
  from a have la: "2 ^ (la - 1) \<le> nat a" and la_pos: "0 < la"
    using floorlog_bounds [of "nat a" 2] by (simp_all add: la_def floorlog_def)
  from b have lb: "nat b < 2 ^ lb"
    using floorlog_bounds [of "nat b" 2] by (simp add: lb_def)
  have la': "(2::rat) ^ (la - 1) \<le> of_int a"
    using la a by (metis of_nat_le_iff of_nat_numeral of_nat_power of_int_of_nat_eq
        nat_0_le order_less_imp_le of_int_le_iff of_int_numeral of_int_power)
  have lb': "of_int b < (2::rat) ^ lb"
    using lb b by (metis of_nat_less_iff of_nat_numeral of_nat_power of_int_of_nat_eq
        nat_0_le order_less_imp_le of_int_less_iff of_int_numeral of_int_power)
  have "int la - int lb - 1 = int (la - 1) - int lb"
    using la_pos by linarith
  then have "pow2 (int la - int lb - 1) = pow2 (int (la - 1) - int lb)"
    by (rule arg_cong)
  also have "\<dots> = 2 ^ (la - 1) / 2 ^ lb"
    by (rule pow2_diff_nat)
  also have "\<dots> \<le> of_int a / 2 ^ lb"
    using la' by (simp add: divide_right_mono)
  also have "\<dots> \<le> of_int a / of_int b"
    using lb' a b by (simp add: frac_le)
  finally have "pow2 (int la - int lb - 1) \<le> q"
    by (simp add: q)
  then show ?thesis
    by (simp add: floor_log2_def ab la_def lb_def Let_def)
qed

lemma to_double_accuracy:
  assumes "0 \<le> q"
  shows "\<bar>to_double q - q\<bar> \<le> q / 2 ^ 53"
proof (cases "q = 0")
  case True
  then show ?thesis by (simp add: to_double_def)
next
  case False
  with assms have pos: "0 < q" by simp
  define u where "u = pow2 (floor_log2 q - 52)"
  have u: "0 < u" by (simp add: u_def)
  have "pow2 (floor_log2 q) = pow2 (floor_log2 q - 52 + 52)"
    by simp
  also have "\<dots> = u * 2 ^ 52"
    unfolding pow2_add u_def by (simp add: pow2_def)
  finally have "u * 2 ^ 52 \<le> q"
    using floor_log2_le [OF pos] by simp
  then have uq: "u / 2 \<le> q / 2 ^ 53"
    by (simp add: field_simps)
  define r where "r = round_half_even (q / u)"
  have "\<bar>of_int r - q / u\<bar> \<le> 1 / 2"
    unfolding r_def by (rule round_half_even_bound)
  then have "\<bar>of_int r - q / u\<bar> * u \<le> 1 / 2 * u"
    using u by (intro mult_right_mono) simp_all
  moreover have e: "of_int r * u - q = (of_int r - q / u) * u"
    using u by (simp add: field_simps)
  have "\<bar>of_int r * u - q\<bar> = \<bar>of_int r - q / u\<bar> * u"
    unfolding e abs_mult using u by simp
  ultimately have "\<bar>of_int r * u - q\<bar> \<le> u / 2"
    by simp
  moreover have "to_double q = of_int r * u"
    using pos by (simp add: to_double_def u_def r_def Let_def)
  ultimately show ?thesis
    using uq by simp
qed


lemma pow2_mono: "i \<le> j \<Longrightarrow> pow2 i \<le> pow2 j"
proof -
  assume "i \<le> j"
  then have "pow2 j = pow2 i * 2 ^ nat (j - i)"
    using pow2_add [of i "j - i"] by (simp add: pow2_def)
  moreover have "(1::rat) \<le> 2 ^ nat (j - i)"
    by simp
  then have "pow2 i * 1 \<le> pow2 i * 2 ^ nat (j - i)"
    by (intro mult_left_mono) (simp_all add: less_imp_le)
  ultimately show ?thesis
    by simp
qed

lemma to_double_quarters:
  assumes "0 \<le> n" and q: "q = of_int n / 4" and lt: "q < 2 ^ 51"
  shows "to_double q = q"
proof (cases "q = 0")
  case True
  then show ?thesis by (simp add: to_double_def)
next
  case False
  with assms have pos: "0 < q" by simp
  define e where "e = floor_log2 q"
  have "pow2 e \<le> q"
    unfolding e_def by (rule floor_log2_le [OF pos])
  with lt have "pow2 e < pow2 51"
    by (simp add: pow2_def)
  then have e: "e < 51"
    using pow2_mono [of 51 e] by (cases "e < 51") simp_all
  define m where "m = nat (50 - e)"
  have u: "pow2 (e - 52) = 1 / (4 * 2 ^ m)"
  proof -
    have "e - 52 < 0" "nat (- (e - 52)) = Suc (Suc m)"
      using e by (simp_all add: m_def)
    then show ?thesis
      by (simp add: pow2_def)
  qed
  have "q / pow2 (e - 52) = of_int (n * 2 ^ m)"
    by (simp add: u q)
  then have "round_half_even (q / pow2 (e - 52)) = n * 2 ^ m"
    by (simp only: round_half_even_of_int)
  then have "to_double q = of_int (n * 2 ^ m) * (1 / (4 * 2 ^ m))"
    using pos by (simp add: to_double_def Let_def e_def [symmetric] u)
  then show ?thesis
    by (simp add: q)
qed

lemma card_numbers_sum:
  assumes "a \<in> card_numbers" and "b \<in> card_numbers"
  shows "to_double (to_double (a + b) / 2) = (a + b) / 2"
proof -
  from assms obtain i j :: nat where i: "i \<le> 200" "a = of_nat i / 2"
    and j: "j \<le> 200" "b = of_nat j / 2"
    by (auto simp: card_numbers_def)
  have s: "a + b = of_int (2 * (int i + int j)) / 4"
    by (simp add: i j)
  have "a + b \<le> 200"
    using i j by (simp add: field_simps)
  then have lt: "a + b < 2 ^ 51" "(a + b) / 2 < 2 ^ 51"
    by simp_all
  have 1: "to_double (a + b) = a + b"
    by (rule to_double_quarters [OF _ s lt(1)]) simp
  have h: "(a + b) / 2 = of_int (int i + int j) / 4"
    by (simp add: i j)
  show ?thesis
    unfolding 1 by (rule to_double_quarters [OF _ h lt(2)]) simp
qed

lemma median_of_card_numbers:
  assumes "xs \<noteq> []" and "set xs \<subseteq> card_numbers"
  shows "statistics_median xs = Inr (median_spec xs)"
proof -
  define data where "data = sort xs"
  have n: "length data = length xs" and s: "set data = set xs"
    by (simp_all add: data_def)
  from assms(1) have pos: "0 < length xs" by simp
  have ne: "sort xs \<noteq> []"
    using assms(1) by (metis length_0_conv length_sort)
  show ?thesis
  proof (cases "odd (length xs)")
    case True
    then show ?thesis
      using pos ne
      by (simp add: statistics_median_def median_spec_def Let_def odd_iff_mod_2_eq_one)
  next
    case False
    with pos have "length xs div 2 - 1 < length data" "length xs div 2 < length data"
      unfolding n by linarith+
    then have "data ! (length xs div 2 - 1) \<in> card_numbers"
      "data ! (length xs div 2) \<in> card_numbers"
      using assms(2) s nth_mem by blast+
    then have "to_double (to_double (data ! (length xs div 2 - 1) + data ! (length xs div 2)) / 2) =
        (data ! (length xs div 2 - 1) + data ! (length xs div 2)) / 2"
      by (rule card_numbers_sum)
    then show ?thesis
      using False pos ne
      by (simp add: statistics_median_def median_spec_def Let_def data_def [symmetric] n
          odd_iff_mod_2_eq_one)
  qed
qed


lemma format_2f_nearest:
  fixes S n :: nat
  assumes n: "0 < n" "n < 2 ^ 38" and q: "q = of_nat S / (2 * of_nat n)" and le: "q \<le> 100"
  shows "\<bar>of_int (format_2f (to_double q)) / 100 - q\<bar> \<le> 1 / 200"
proof -
  define m where "m = to_double q"
  define h where "h = format_2f m"
  define k where "k = h * int n - 50 * int S"
  define c :: rat where "c = 100 / 2 ^ 53"
  have q0: "0 \<le> q"
    by (simp add: q)
  have 1: "\<bar>of_int h - m * 100\<bar> \<le> 1 / 2"
    unfolding h_def format_2f_def by (rule round_half_even_bound)
  have "\<bar>m - q\<bar> \<le> q / 2 ^ 53"
    unfolding m_def by (rule to_double_accuracy [OF q0])
  also have "\<dots> \<le> 100 / 2 ^ 53"
    using le by (simp add: divide_right_mono)
  finally have 2: "\<bar>m - q\<bar> \<le> c"
    by (simp only: c_def)
  have 3: "\<bar>of_int h - q * 100\<bar> \<le> 1 / 2 + 100 * c"
    using 1 2 unfolding abs_le_iff by linarith
  have "(of_int k :: rat) = (of_int h - q * 100) * of_nat n"
    using n(1) by (simp add: k_def q field_simps)
  then have "\<bar>of_int k :: rat\<bar> = \<bar>of_int h - q * 100\<bar> * of_nat n"
    by (simp add: abs_mult)
  also have "\<dots> \<le> (1 / 2 + 100 * c) * of_nat n"
    using 3 by (rule mult_right_mono) simp
  finally have 4: "\<bar>of_int k :: rat\<bar> \<le> of_nat n / 2 + 100 * c * of_nat n"
    by (simp add: distrib_right)
  have "(of_nat n :: rat) < 2 ^ 38"
    using n(2) by (metis of_nat_less_iff of_nat_numeral of_nat_power)
  then have "100 * c * (of_nat n :: rat) < 1 / 2"
    by (simp add: c_def)
  with 4 have "2 * \<bar>of_int k :: rat\<bar> < of_nat n + 1"
    by linarith
  then have "(of_int (2 * \<bar>k\<bar>) :: rat) < of_int (int n + 1)"
    by simp
  then have "2 * \<bar>k\<bar> < int n + 1"
    by (simp only: of_int_less_iff)
  then have "2 * \<bar>k\<bar> \<le> int n"
    by simp
  then have "(of_int (2 * \<bar>k\<bar>) :: rat) \<le> of_int (int n)"
    by (simp only: of_int_le_iff)
  then have "\<bar>of_int h - q * 100\<bar> * of_nat n \<le> 1 / 2 * of_nat n"
    using \<open>\<bar>of_int k :: rat\<bar> = \<bar>of_int h - q * 100\<bar> * of_nat n\<close> by simp
  then have "\<bar>of_int h - q * 100\<bar> \<le> 1 / 2"
    using n(1) by (simp only: mult_le_cancel_right)
  then show ?thesis
    by (simp add: h_def m_def abs_le_iff field_simps)
qed

section \<open>The statistics of the cards\<close>

lemma card_numbers_I: "k \<le> 200 \<Longrightarrow> of_nat k / 2 \<in> card_numbers"
  by (simp add: card_numbers_def)

lemma card_value_in_card_numbers: "card_value c \<in> card_numbers"
proof -
  have "card_value c \<in> {1 / 2, 0, 1, 2, 3, 5, 8, 13, 20, 40, 100}"
    by (simp add: card_value_def)
  moreover have "{1 / 2, 0, 1, 2, 3, 5, 8, 13, 20, 40, 100} \<subseteq> card_numbers"
    using card_numbers_I [of 1] card_numbers_I [of 0] card_numbers_I [of 2] card_numbers_I [of 4]
      card_numbers_I [of 6] card_numbers_I [of 10] card_numbers_I [of 16] card_numbers_I [of 26]
      card_numbers_I [of 40] card_numbers_I [of 80] card_numbers_I [of 200]
    by simp
  ultimately show ?thesis by blast
qed

lemma float_of_card:
  assumes "float_on_cards e" and "c \<in> set VOTE_OPTIONS" and "c \<noteq> ''?''" and "c \<noteq> half_card"
  shows "pyfloat e c = Some (card_value c)"
  using assms
  by (auto simp: float_on_cards_def VOTE_OPTIONS_def card_value_def)

lemma tally_numeric:
  assumes "float_on_cards e" and "\<forall>v\<in>set vs. v_value v \<in> set VOTE_OPTIONS"
  shows "snd (tally e vs (c, ns)) =
           ns @ map card_value (filter (\<lambda>c. c \<noteq> ''?'') (map v_value vs))"
  using assms(2)
proof (induction vs arbitrary: c ns)
  case Nil
  then show ?case by simp
next
  case (Cons v vs)
  then have v: "v_value v \<in> set VOTE_OPTIONS" and vs: "\<forall>v\<in>set vs. v_value v \<in> set VOTE_OPTIONS"
    by simp_all
  have h: "card_value half_card = 1 / 2"
    by (simp add: card_value_def)
  show ?case
    using float_of_card [OF assms(1) v]
    by (simp add: Let_def Cons.IH [OF vs] h)
qed

lemma sum_card_numbers:
  "set xs \<subseteq> card_numbers \<Longrightarrow>
   \<exists>S::nat. sum_list xs = of_nat S / 2 \<and> S \<le> 200 * length xs"
proof (induction xs)
  case Nil
  then show ?case by simp
next
  case (Cons x xs)
  then obtain S :: nat where S: "sum_list xs = of_nat S / 2" "S \<le> 200 * length xs"
    by auto
  from Cons.prems obtain k :: nat where k: "x = of_nat k / 2" "k \<le> 200"
    by (auto simp: card_numbers_def)
  have "sum_list (x # xs) = of_nat (k + S) / 2" "k + S \<le> 200 * length (x # xs)"
    using S k by (simp_all add: add_divide_distrib)
  then show ?case by blast
qed

lemma mean_of_card_numbers:
  assumes "xs \<noteq> []" and "set xs \<subseteq> card_numbers"
  shows "\<exists>S::nat. sum_list xs / of_nat (length xs) = of_nat S / (2 * of_nat (length xs))"
    and "0 \<le> sum_list xs / of_nat (length xs)"
    and "sum_list xs / of_nat (length xs) \<le> 100"
proof -
  from sum_card_numbers [OF assms(2)] obtain S :: nat
    where S: "sum_list xs = of_nat S / 2" "S \<le> 200 * length xs"
    by blast
  from assms(1) have n: "0 < length xs" by simp
  show "\<exists>S::nat. sum_list xs / of_nat (length xs) = of_nat S / (2 * of_nat (length xs))"
    unfolding S(1) by (intro exI [of _ S]) simp
  show "0 \<le> sum_list xs / of_nat (length xs)"
    by (simp add: S(1))
  have "(of_nat S :: rat) \<le> of_nat (200 * length xs)"
    using S(2) by (simp only: of_nat_le_iff)
  then show "sum_list xs / of_nat (length xs) \<le> 100"
    using n by (simp add: S(1) field_simps)
qed


lemma stats_lines_of_card_numbers:
  assumes "set xs \<subseteq> card_numbers"
  shows "stats_lines xs =
     (if xs = [] then []
      else [MeanLine (format_2f (to_double (sum_list xs / of_nat (length xs)))),
            MedianLine (median_spec xs)])"
  using median_of_card_numbers [OF _ assms]
  by (auto simp: stats_lines_def statistics_mean_def)


text \<open>
  Claim C6. When every vote holds a card and \<^verbatim>\<open>float\<close> reads the ten numeric cards as
  their numbers, the numeric values collected are the numbers of the votes other than
  \<^verbatim>\<open>?\<close>, in order, with the half card as 1/2. When there is none, the text has no
  statistics line. Otherwise it has two: the mean line shows the arithmetic mean, held as
  a double, rounded to hundredths, and the median line shows the median in the textbook
  sense, exactly. The double is within one part in \<open>2\<^sup>5\<^sup>3\<close> of the exact mean and
  the hundredths shown within 1/200 of the double; with fewer than \<open>2\<^sup>3\<^sup>8\<close> numeric
  votes the hundredths shown are within 1/200 of the exact mean itself, so they are the
  mean rounded to two decimals.
\<close>

theorem results_statistics:
  assumes "float_on_cards e" and "\<forall>v\<in>set vs. v_value v \<in> set VOTE_OPTIONS"
  shows
    "(let xs = map card_value (filter (\<lambda>c. c \<noteq> ''?'') (map v_value vs));
          mean = sum_list xs / of_nat (length xs)
      in snd (tally e vs (Map.empty, [])) = xs
       \<and> stats_of (results_text e s sid vs ms) =
           (if xs = [] then []
            else [MeanLine (format_2f (to_double mean)), MedianLine (median_spec xs)])
       \<and> (xs \<noteq> [] \<longrightarrow>
            \<bar>of_int (format_2f (to_double mean)) / 100 - to_double mean\<bar> \<le> 1 / 200
          \<and> \<bar>to_double mean - mean\<bar> \<le> mean / 2 ^ 53)
       \<and> (xs \<noteq> [] \<and> length xs < 2 ^ 38 \<longrightarrow>
            \<bar>of_int (format_2f (to_double mean)) / 100 - mean\<bar> \<le> 1 / 200))"
proof -
  define xs where "xs = map card_value (filter (\<lambda>c. c \<noteq> ''?'') (map v_value vs))"
  define mean where "mean = sum_list xs / of_nat (length xs)"
  have t: "snd (tally e vs (Map.empty, [])) = xs"
    unfolding xs_def using tally_numeric [OF assms, of Map.empty "[]"] by simp
  have c: "set xs \<subseteq> card_numbers"
    by (auto simp: xs_def card_value_in_card_numbers)
  have 1: "stats_of (results_text e s sid vs ms) =
           (if xs = [] then []
            else [MeanLine (format_2f (to_double mean)), MedianLine (median_spec xs)])"
    unfolding stats_of_results_text t mean_def by (rule stats_lines_of_card_numbers [OF c])
  have 2: "\<bar>of_int (format_2f (to_double mean)) / 100 - to_double mean\<bar> \<le> 1 / 200"
    by (rule format_2f_bound)
  have 3: "\<bar>to_double mean - mean\<bar> \<le> mean / 2 ^ 53" if "xs \<noteq> []"
    unfolding mean_def
    by (rule to_double_accuracy) (rule mean_of_card_numbers(2) [OF that c])
  have 4: "\<bar>of_int (format_2f (to_double mean)) / 100 - mean\<bar> \<le> 1 / 200"
    if "xs \<noteq> []" "length xs < 2 ^ 38"
  proof -
    from mean_of_card_numbers(1) [OF that(1) c] obtain S :: nat
      where S: "mean = of_nat S / (2 * of_nat (length xs))"
      unfolding mean_def by blast
    have le: "mean \<le> 100"
      unfolding mean_def by (rule mean_of_card_numbers(3) [OF that(1) c])
    from that(1) have "0 < length xs" by simp
    then show ?thesis
      using that(2) S le by (rule format_2f_nearest)
  qed
  show ?thesis
    unfolding Let_def xs_def [symmetric] mean_def [symmetric]
    using t 1 2 3 4 by blast
qed


lemma float_on_cards_env0: "float_on_cards env0"
  by (simp add: float_on_cards_def env0_def)

lemma mean_example: "format_2f (to_double (7 / 6)) = 117"
  by code_simp

lemma mean_example_even: "format_2f (to_double (11 / 4)) = 275"
  by code_simp

lemma median_example: "median_spec [1 / 2, 1, 2] = 1"
  by code_simp

lemma median_example_even: "median_spec [1, 2, 3, 5] = 5 / 2"
  by code_simp

theorem results_statistics_witness:
  "float_on_cards env0 \<and>
   v_value half_vote \<in> set VOTE_OPTIONS \<and> v_value one_vote \<in> set VOTE_OPTIONS \<and>
   v_value two_vote \<in> set VOTE_OPTIONS \<and> v_value three_vote \<in> set VOTE_OPTIONS \<and>
   v_value five_vote \<in> set VOTE_OPTIONS \<and> v_value abstain_vote \<in> set VOTE_OPTIONS \<and>
   stats_of (results_text env0 s_open ''s1'' [half_vote, abstain_vote, one_vote, two_vote] []) =
     [MeanLine 117, MedianLine 1] \<and>
   stats_of (results_text env0 s_open ''s1'' [one_vote, two_vote, three_vote, five_vote] []) =
     [MeanLine 275, MedianLine (5 / 2)] \<and>
   stats_of (results_text env0 s_open ''s1'' [abstain_vote, abstain_vote] []) = []"
proof -
  note f = float_on_cards_env0
  have v: "v_value half_vote \<in> set VOTE_OPTIONS" "v_value one_vote \<in> set VOTE_OPTIONS"
    "v_value two_vote \<in> set VOTE_OPTIONS" "v_value three_vote \<in> set VOTE_OPTIONS"
    "v_value five_vote \<in> set VOTE_OPTIONS" "v_value abstain_vote \<in> set VOTE_OPTIONS"
    by (simp_all add: VOTE_OPTIONS_def half_vote_def one_vote_def two_vote_def three_vote_def
        five_vote_def abstain_vote_def)
  have a: "\<forall>v\<in>set [half_vote, abstain_vote, one_vote, two_vote]. v_value v \<in> set VOTE_OPTIONS"
    and b: "\<forall>v\<in>set [one_vote, two_vote, three_vote, five_vote]. v_value v \<in> set VOTE_OPTIONS"
    and c: "\<forall>v\<in>set [abstain_vote, abstain_vote]. v_value v \<in> set VOTE_OPTIONS"
    using v by simp_all
  have xa: "map card_value (filter (\<lambda>c. c \<noteq> ''?'')
              (map v_value [half_vote, abstain_vote, one_vote, two_vote])) = [1 / 2, 1, 2]"
    and xb: "map card_value (filter (\<lambda>c. c \<noteq> ''?'')
              (map v_value [one_vote, two_vote, three_vote, five_vote])) = [1, 2, 3, 5]"
    and xc: "map card_value (filter (\<lambda>c. c \<noteq> ''?'')
              (map v_value [abstain_vote, abstain_vote])) = []"
    by (simp_all add: card_value_def half_card_def half_vote_def one_vote_def two_vote_def
        three_vote_def five_vote_def abstain_vote_def)
  have ma: "sum_list [1 / 2, 1, 2] / of_nat (length [1 / 2, 1, 2 :: rat]) = (7 / 6 :: rat)"
    and mb: "sum_list [1, 2, 3, 5] / of_nat (length [1, 2, 3, 5 :: rat]) = (11 / 4 :: rat)"
    by simp_all
  from results_statistics [OF f a, where s = s_open and sid = "''s1''" and ms = "[]"]
  have 1: "stats_of (results_text env0 s_open ''s1''
             [half_vote, abstain_vote, one_vote, two_vote] []) = [MeanLine 117, MedianLine 1]"
    unfolding Let_def xa ma mean_example median_example by simp
  from results_statistics [OF f b, where s = s_open and sid = "''s1''" and ms = "[]"]
  have 2: "stats_of (results_text env0 s_open ''s1''
             [one_vote, two_vote, three_vote, five_vote] []) = [MeanLine 275, MedianLine (5 / 2)]"
    unfolding Let_def xb mb mean_example_even median_example_even by simp
  from results_statistics [OF f c, where s = s_open and sid = "''s1''" and ms = "[]"]
  have 3: "stats_of (results_text env0 s_open ''s1'' [abstain_vote, abstain_vote] []) = []"
    unfolding Let_def xc by simp
  show ?thesis
    using f v 1 2 3 by simp
qed

end
